theory Spec2Isabelle
  imports Complex_Main "HOL-Library.Word"
begin

section \<open>Data model of \<^verbatim>\<open>xdp_redirect_cpu_user.c\<close>\<close>

text \<open>
  The statistics engine of the XDP cpumap sample: per-CPU counter records are read from
  BPF maps into one of two \<^verbatim>\<open>struct stats_record\<close> buffers, rates are derived from the
  difference of two buffers and printed as a table.

  Conventions of the embedding.
  \<^item> \<^verbatim>\<open>__u64\<close> and \<^verbatim>\<open>__u32\<close> are 64- and 32-bit words: \<open>+\<close> and \<open>-\<close> wrap around.
  \<^item> A C \<^verbatim>\<open>double\<close> is the real number it denotes, and every operation that produces
    one rounds as IEEE 754 binary64 arithmetic does (\<open>round_double\<close> below): the
    conversion of an integer to \<^verbatim>\<open>double\<close> and the division of two doubles. The
    conversion of a \<^verbatim>\<open>double\<close> back to \<^verbatim>\<open>__u64\<close> is \<open>u64_of_double\<close>.
  \<^item> The array \<^verbatim>\<open>struct datarec *cpu\<close> of a record is a list stored in the record: the
    array is allocated once for its record in \<^verbatim>\<open>alloc_stats_record\<close> and the pointer
    is never reassigned or shared. The two \<^verbatim>\<open>struct stats_record\<close> objects themselves
    live in a heap, addressed by the pointers that \<^verbatim>\<open>swap\<close> exchanges.
  \<^item> A call of \<^verbatim>\<open>exit\<close> and an operation that C leaves undefined (a read or write past
    the end of an array, \<^verbatim>\<open>memset\<close> through a null pointer) are results of type
    \<open>abort\<close>, returned as \<open>Inl\<close>.
  \<^item> \<^verbatim>\<open>bpf_num_possible_cpus()\<close> (from \<^verbatim>\<open>bpf_util.h\<close>) is the parameter \<open>nr_cpus\<close>;
    \<^verbatim>\<open>map_fd[]\<close> (from \<^verbatim>\<open>bpf_load.h\<close>) is the parameter \<open>map_fd\<close>.
  \<^item> What the kernel and the C library do is given to each function as an argument: the
    result of a lookup, of a clock reading, of a \<^verbatim>\<open>malloc\<close>. Signals, \<^verbatim>\<open>sleep\<close> and
    the formatting of a line into characters are not modelled.
\<close>

type_synonym u64 = "64 word"
type_synonym u32 = "32 word"

definition MAX_CPUS :: nat where
  "MAX_CPUS = 12"

definition EXIT_OK :: int where "EXIT_OK = 0"
definition EXIT_FAIL :: int where "EXIT_FAIL = 1"
definition EXIT_FAIL_OPTION :: int where "EXIT_FAIL_OPTION = 2"
definition EXIT_FAIL_XDP :: int where "EXIT_FAIL_XDP = 3"
definition EXIT_FAIL_BPF :: int where "EXIT_FAIL_BPF = 4"
definition EXIT_FAIL_MEM :: int where "EXIT_FAIL_MEM = 5"

definition NANOSEC_PER_SEC :: int where
  "NANOSEC_PER_SEC = 1000000000"

datatype abort = Exit int | Undefined

record datarec =
  processed :: u64
  dropped :: u64

record record_t =
  timestamp :: u64
  total :: datarec
  cpu :: "datarec list"

record stats_record =
  rx_cnt :: record_t
  redir_err :: record_t
  kthread :: record_t
  enq :: "record_t list"

section \<open>Binary64 arithmetic\<close>

text \<open>
  Rounding to the nearest \<^verbatim>\<open>double\<close>, ties to the even significand: a real \<open>x\<close> other
  than 0 whose magnitude lies in \<open>[2^e, 2^(e+1))\<close> is rounded to a multiple of
  \<open>2^(e - 52)\<close> (53 significant bits), and to a multiple of \<open>2^(-1074)\<close> below the
  normal range. A result of \<open>2^1024\<close> or more, which binary64 replaces by an infinity,
  stays the finite number it is: the only such result here is a quotient that is converted
  to \<^verbatim>\<open>__u64\<close> next, and finite or infinite it is out of the range of that conversion.
\<close>

definition round_half_even :: "real \<Rightarrow> int" where
  "round_half_even y =
     (let f = \<lfloor>y\<rfloor>; d = y - real_of_int f
      in if d < 1 / 2 then f else if 1 / 2 < d then f + 1 else if even f then f else f + 1)"

definition binade :: "real \<Rightarrow> int" where
  "binade x = \<lfloor>log 2 \<bar>x\<bar>\<rfloor>"

definition ulp :: "real \<Rightarrow> real" where
  "ulp x = 2 powr real_of_int (max (binade x) (- 1022) - 52)"

definition round_double :: "real \<Rightarrow> real" where
  "round_double x = (if x = 0 then 0 else real_of_int (round_half_even (x / ulp x)) * ulp x)"

text \<open>The conversions \<^verbatim>\<open>(double) w\<close> of a \<^verbatim>\<open>__u64\<close> and of an \<^verbatim>\<open>int\<close>, and \<^verbatim>\<open>x / y\<close>.\<close>

definition double_of_u64 :: "u64 \<Rightarrow> real" where
  "double_of_u64 w = round_double (real (unat w))"

definition double_of_int :: "int \<Rightarrow> real" where
  "double_of_int i = round_double (real_of_int i)"

definition double_div :: "real \<Rightarrow> real \<Rightarrow> real" where
  "double_div x y = round_double (x / y)"

section \<open>Rate calculation\<close>

text \<open>
  The assignment \<^verbatim>\<open>pps = packets / period_\<close> converts a nonnegative \<^verbatim>\<open>double\<close> to
  \<^verbatim>\<open>__u64\<close>: the fraction is discarded. When the integral part does not fit into 64 bits
  the C standard leaves the behaviour undefined (6.3.1.4); an implementation of Annex F
  returns an unspecified value, and the code GCC emits for x86-64 returns 0 for a value
  of \<open>2^64\<close> or more. The value returned out of range is the parameter \<open>oor\<close>: what
  is proved for every \<open>oor\<close> holds whatever the conversion returns there.
\<close>

definition u64_of_double :: "(real \<Rightarrow> u64) \<Rightarrow> real \<Rightarrow> u64" where
  "u64_of_double oor x =
     (if - 1 < x \<and> x < 2 ^ 64
      then word_of_int (if 0 \<le> x then \<lfloor>x\<rfloor> else \<lceil>x\<rceil>)
      else oor x)"

text \<open>The C parameter \<^verbatim>\<open>period_\<close> is written \<open>period'\<close>.\<close>

definition calc_period :: "record_t \<Rightarrow> record_t \<Rightarrow> real" where
  "calc_period r p =
     (let period = timestamp r - timestamp p
      in if period > 0
         then double_div (double_of_u64 period) (double_of_int NANOSEC_PER_SEC)
         else 0)"

definition calc_pps :: "(real \<Rightarrow> u64) \<Rightarrow> datarec \<Rightarrow> datarec \<Rightarrow> real \<Rightarrow> u64" where
  "calc_pps oor r p period' =
     (if period' > 0
      then (let packets = processed r - processed p
            in u64_of_double oor (double_div (double_of_u64 packets) period'))
      else 0)"

definition calc_drop_pps :: "(real \<Rightarrow> u64) \<Rightarrow> datarec \<Rightarrow> datarec \<Rightarrow> real \<Rightarrow> u64" where
  "calc_drop_pps oor r p period' =
     (if period' > 0
      then (let packets = dropped r - dropped p
            in u64_of_double oor (double_div (double_of_u64 packets) period'))
      else 0)"

section \<open>Collection\<close>

text \<open>
  The environment of one call of \<^verbatim>\<open>map_collect_percpu\<close>: what
  \<^verbatim>\<open>bpf_map_lookup_elem(fd, &key, values)\<close> does at that moment (\<open>None\<close> for a
  nonzero return code, \<open>Some vs\<close> for the values the kernel writes into \<^verbatim>\<open>values\<close>),
  and what \<^verbatim>\<open>clock_gettime(CLOCK_MONOTONIC, &t)\<close> returns if it is called next
  (the return code and the \<^verbatim>\<open>timespec\<close>, whose fields are read as 64-bit patterns).
\<close>

record timespec =
  tv_sec :: u64
  tv_nsec :: u64

record sys =
  bpf_map_lookup_elem :: "int \<Rightarrow> u32 \<Rightarrow> datarec list option"
  clock_gettime :: "int \<times> timespec"

text \<open>A line written to \<^verbatim>\<open>stderr\<close>: the arguments of the \<^verbatim>\<open>fprintf\<close>.\<close>

datatype err_line = Lookup_failed u32

definition gettime :: "int \<times> timespec \<Rightarrow> abort + u64" where
  "gettime ck =
     (let res = fst ck; t = snd ck
      in if res < 0 then Inl (Exit EXIT_FAIL)
         else Inr (tv_sec t * word_of_int NANOSEC_PER_SEC + tv_nsec t))"

text \<open>
  The body of the loop of \<^verbatim>\<open>map_collect_percpu\<close> for the indices \<open>is\<close>, on the record
  and the two running sums. An index outside \<^verbatim>\<open>values\<close> or \<^verbatim>\<open>rec->cpu\<close> is undefined.
\<close>

fun collect_loop ::
  "datarec list \<Rightarrow> nat list \<Rightarrow> record_t \<times> u64 \<times> u64 \<Rightarrow> abort + record_t \<times> u64 \<times> u64"
where
  "collect_loop values [] s = Inr s"
| "collect_loop values (i # is) (rec, sum_processed, sum_dropped) =
     (if i < length values \<and> i < length (cpu rec) then
        (let c1 = (cpu rec)[i := (cpu rec ! i)\<lparr>processed := processed (values ! i)\<rparr>];
             sum_processed = sum_processed + processed (values ! i);
             c2 = c1[i := (c1 ! i)\<lparr>dropped := dropped (values ! i)\<rparr>];
             sum_dropped = sum_dropped + dropped (values ! i)
         in collect_loop values is (rec\<lparr>cpu := c2\<rparr>, sum_processed, sum_dropped))
      else Inl Undefined)"

definition map_collect_percpu ::
  "nat \<Rightarrow> sys \<Rightarrow> int \<Rightarrow> u32 \<Rightarrow> record_t \<times> err_line list
     \<Rightarrow> abort + bool \<times> record_t \<times> err_line list"
where
  "map_collect_percpu nr_cpus env fd key s =
     (let rec = fst s; err = snd s in
      case bpf_map_lookup_elem env fd key of
        None \<Rightarrow> Inr (False, rec, err @ [Lookup_failed key])
      | Some values \<Rightarrow>
          (case gettime (clock_gettime env) of
             Inl a \<Rightarrow> Inl a
           | Inr now \<Rightarrow>
               (case collect_loop values [0..<nr_cpus] (rec\<lparr>timestamp := now\<rparr>, 0, 0) of
                  Inl a \<Rightarrow> Inl a
                | Inr (rec', sum_processed, sum_dropped) \<Rightarrow>
                    Inr (True,
                         rec'\<lparr>total := (total rec')\<lparr>processed := sum_processed,
                                                     dropped := sum_dropped\<rparr>\<rparr>,
                         err))))"

text \<open>Sequencing of two steps, the first of which may abort.\<close>

definition bind_abort :: "abort + 'a \<Rightarrow> ('a \<Rightarrow> abort + 'b) \<Rightarrow> abort + 'b" where
  "bind_abort m f = (case m of Inl a \<Rightarrow> Inl a | Inr x \<Rightarrow> f x)"

text \<open>
  The loop over \<^verbatim>\<open>enq[i]\<close> of \<^verbatim>\<open>stats_collect\<close>; \<open>env j\<close> is the environment of
  the \<open>j\<close>-th call of \<^verbatim>\<open>map_collect_percpu\<close> of one \<^verbatim>\<open>stats_collect\<close>. The return value
  of \<^verbatim>\<open>map_collect_percpu\<close> is discarded, as in the source.
\<close>

fun collect_enq ::
  "nat \<Rightarrow> int \<Rightarrow> (nat \<Rightarrow> sys) \<Rightarrow> nat list \<Rightarrow> stats_record \<times> err_line list
     \<Rightarrow> abort + stats_record \<times> err_line list"
where
  "collect_enq nr_cpus fd env [] s = Inr s"
| "collect_enq nr_cpus fd env (i # is) (rec, err) =
     (if i < length (enq rec) then
        (case map_collect_percpu nr_cpus (env (2 + i)) fd (of_nat i) (enq rec ! i, err) of
           Inl a \<Rightarrow> Inl a
         | Inr (ok, r, err') \<Rightarrow>
             collect_enq nr_cpus fd env is (rec\<lparr>enq := (enq rec)[i := r]\<rparr>, err'))
      else Inl Undefined)"

definition stats_collect ::
  "nat \<Rightarrow> (nat \<Rightarrow> int) \<Rightarrow> (nat \<Rightarrow> sys) \<Rightarrow> stats_record \<times> err_line list
     \<Rightarrow> abort + stats_record \<times> err_line list"
where
  "stats_collect nr_cpus map_fd env s =
     (let rec = fst s; err = snd s in
      bind_abort (map_collect_percpu nr_cpus (env 0) (map_fd 1) 0 (rx_cnt rec, err))
        (\<lambda>(ok, r, err).
      let rec = rec\<lparr>rx_cnt := r\<rparr> in
      bind_abort (map_collect_percpu nr_cpus (env 1) (map_fd 2) 1 (redir_err rec, err))
        (\<lambda>(ok, r, err).
      let rec = rec\<lparr>redir_err := r\<rparr> in
      bind_abort (collect_enq nr_cpus (map_fd 3) env [0..<MAX_CPUS] (rec, err))
        (\<lambda>(rec, err).
      bind_abort (map_collect_percpu nr_cpus (env (2 + MAX_CPUS)) (map_fd 4) 0 (kthread rec, err))
        (\<lambda>(ok, r, err).
      Inr (rec\<lparr>kthread := r\<rparr>, err))))))"

section \<open>Allocation\<close>

text \<open>
  \<^verbatim>\<open>malloc\<close> returns a null pointer (\<open>None\<close>) or an address. \<^verbatim>\<open>memset\<close> through a null
  pointer is undefined; the source calls it before it tests the pointer.
\<close>

definition memset :: "nat option \<Rightarrow> 'a \<Rightarrow> abort + 'a" where
  "memset p zeroed = (case p of None \<Rightarrow> Inl Undefined | Some a \<Rightarrow> Inr zeroed)"

definition alloc_record_per_cpu :: "nat \<Rightarrow> nat option \<Rightarrow> abort + datarec list" where
  "alloc_record_per_cpu nr_cpus array =
     bind_abort (memset array (replicate nr_cpus \<lparr>processed = 0, dropped = 0\<rparr>))
       (\<lambda>zeroed. if array = None then Inl (Exit EXIT_FAIL_MEM) else Inr zeroed)"

fun alloc_enq ::
  "nat \<Rightarrow> (nat \<Rightarrow> nat option) \<Rightarrow> nat list \<Rightarrow> stats_record \<Rightarrow> abort + stats_record"
where
  "alloc_enq nr_cpus malloc [] rec = Inr rec"
| "alloc_enq nr_cpus malloc (i # is) rec =
     (if i < length (enq rec) then
        bind_abort (alloc_record_per_cpu nr_cpus (malloc (4 + i)))
          (\<lambda>c. alloc_enq nr_cpus malloc is (rec\<lparr>enq := (enq rec)[i := (enq rec ! i)\<lparr>cpu := c\<rparr>]\<rparr>))
      else Inl Undefined)"

text \<open>
  \<open>malloc k\<close> is the result of the \<open>k\<close>-th call of \<^verbatim>\<open>malloc\<close> of one
  \<^verbatim>\<open>alloc_stats_record\<close>. The result is the address of the new object and its contents.
\<close>

definition alloc_stats_record ::
  "nat \<Rightarrow> (nat \<Rightarrow> nat option) \<Rightarrow> abort + nat \<times> stats_record"
where
  "alloc_stats_record nr_cpus malloc =
     (let zero = \<lparr>timestamp = 0, total = \<lparr>processed = 0, dropped = 0\<rparr>, cpu = []\<rparr> in
      bind_abort (memset (malloc 0)
          \<lparr>rx_cnt = zero, redir_err = zero, kthread = zero, enq = replicate MAX_CPUS zero\<rparr>)
        (\<lambda>rec.
      case malloc 0 of
        None \<Rightarrow> Inl (Exit EXIT_FAIL_MEM)
      | Some a \<Rightarrow>
          bind_abort (alloc_record_per_cpu nr_cpus (malloc 1)) (\<lambda>c.
          let rec = rec\<lparr>rx_cnt := (rx_cnt rec)\<lparr>cpu := c\<rparr>\<rparr> in
          bind_abort (alloc_record_per_cpu nr_cpus (malloc 2)) (\<lambda>c.
          let rec = rec\<lparr>redir_err := (redir_err rec)\<lparr>cpu := c\<rparr>\<rparr> in
          bind_abort (alloc_record_per_cpu nr_cpus (malloc 3)) (\<lambda>c.
          let rec = rec\<lparr>kthread := (kthread rec)\<lparr>cpu := c\<rparr>\<rparr> in
          bind_abort (alloc_enq nr_cpus malloc [0..<MAX_CPUS] rec) (\<lambda>rec.
          Inr (a, rec)))))))"

section \<open>Report\<close>

text \<open>
  A line of \<^verbatim>\<open>stdout\<close>: the header, the empty line that ends a report, or a row with the
  arguments of its \<^verbatim>\<open>printf\<close>: the label, the \<^verbatim>\<open>CPU:to\<close> column, the rate (printed
  twice, plain and grouped), the \<^verbatim>\<open>drop-pps\<close> column (a string or a rate) and the period.
\<close>

datatype cpu_col = Cpu nat | Total | Cpu_to nat nat | Sum_to nat

datatype drop_col = Drop_str string | Drop_pps real

datatype line =
    Header
  | Row (label: string) (cpu_to: cpu_col) (pps: real) (drop: drop_col) (period: real)
  | Blank

text \<open>A \<^verbatim>\<open>for\<close> loop whose body prints lines, over the indices \<open>is\<close>.\<close>

fun for_loop :: "(nat \<Rightarrow> abort + line list) \<Rightarrow> nat list \<Rightarrow> abort + line list" where
  "for_loop body [] = Inr []"
| "for_loop body (i # is) =
     bind_abort (body i) (\<lambda>ls. bind_abort (for_loop body is) (\<lambda>rest. Inr (ls @ rest)))"

definition rx_cnt_row ::
  "(real \<Rightarrow> u64) \<Rightarrow> record_t \<Rightarrow> record_t \<Rightarrow> real \<Rightarrow> nat \<Rightarrow> abort + line list"
where
  "rx_cnt_row oor rec prev t i =
     (if i < length (cpu rec) \<and> i < length (cpu prev) then
        (let r = cpu rec ! i; p = cpu prev ! i;
             pps = double_of_u64 (calc_pps oor r p t)
         in Inr (if pps > 0 then [Row ''XDP-RX'' (Cpu i) pps (Drop_str ''(nan)'') t] else []))
      else Inl Undefined)"

definition print_rx_cnt ::
  "(real \<Rightarrow> u64) \<Rightarrow> nat \<Rightarrow> stats_record \<Rightarrow> stats_record \<Rightarrow> abort + line list"
where
  "print_rx_cnt oor nr_cpus stats_rec stats_prev =
     (let rec = rx_cnt stats_rec; prev = rx_cnt stats_prev;
          t = calc_period rec prev
      in bind_abort (for_loop (rx_cnt_row oor rec prev t) [0..<nr_cpus]) (\<lambda>rows.
         let pps = double_of_u64 (calc_pps oor (total rec) (total prev) t)
         in Inr (rows @ [Row ''XDP-RX'' Total pps (Drop_str ''(nan)'') t])))"

definition enq_row ::
  "(real \<Rightarrow> u64) \<Rightarrow> record_t \<Rightarrow> record_t \<Rightarrow> real \<Rightarrow> nat \<Rightarrow> nat \<Rightarrow> abort + line list"
where
  "enq_row oor rec prev t to_cpu i =
     (if i < length (cpu rec) \<and> i < length (cpu prev) then
        (let r = cpu rec ! i; p = cpu prev ! i;
             pps = double_of_u64 (calc_pps oor r p t);
             drop = double_of_u64 (calc_drop_pps oor r p t)
         in Inr (if pps > 0
                 then [Row ''cpumap-enqueue'' (Cpu_to i to_cpu) pps (Drop_pps drop) t]
                 else []))
      else Inl Undefined)"

definition print_enq ::
  "(real \<Rightarrow> u64) \<Rightarrow> nat \<Rightarrow> stats_record \<Rightarrow> stats_record \<Rightarrow> nat \<Rightarrow> abort + line list"
where
  "print_enq oor nr_cpus stats_rec stats_prev to_cpu =
     (if to_cpu < length (enq stats_rec) \<and> to_cpu < length (enq stats_prev) then
        (let rec = enq stats_rec ! to_cpu; prev = enq stats_prev ! to_cpu;
             t = calc_period rec prev
         in bind_abort (for_loop (enq_row oor rec prev t to_cpu) [0..<nr_cpus]) (\<lambda>rows.
            let pps = double_of_u64 (calc_pps oor (total rec) (total prev) t)
            in Inr (rows @
                 (if pps > 0
                  then (let drop = double_of_u64 (calc_drop_pps oor (total rec) (total prev) t)
                        in [Row ''cpumap-enqueue'' (Sum_to to_cpu) pps (Drop_pps drop) t])
                  else []))))
      else Inl Undefined)"

text \<open>
  The \<^verbatim>\<open>cpumap_kthread\<close> and \<^verbatim>\<open>redirect_err\<close> blocks run the same statements and differ in
  the record and the label only.
\<close>

definition drop_row ::
  "(real \<Rightarrow> u64) \<Rightarrow> string \<Rightarrow> record_t \<Rightarrow> record_t \<Rightarrow> real \<Rightarrow> nat \<Rightarrow> abort + line list"
where
  "drop_row oor lbl rec prev t i =
     (if i < length (cpu rec) \<and> i < length (cpu prev) then
        (let r = cpu rec ! i; p = cpu prev ! i;
             pps = double_of_u64 (calc_pps oor r p t);
             drop = double_of_u64 (calc_drop_pps oor r p t)
         in Inr (if pps > 0 then [Row lbl (Cpu i) pps (Drop_pps drop) t] else []))
      else Inl Undefined)"

definition print_drop_block ::
  "(real \<Rightarrow> u64) \<Rightarrow> nat \<Rightarrow> string \<Rightarrow> record_t \<Rightarrow> record_t \<Rightarrow> abort + line list"
where
  "print_drop_block oor nr_cpus lbl rec prev =
     (let t = calc_period rec prev
      in bind_abort (for_loop (drop_row oor lbl rec prev t) [0..<nr_cpus]) (\<lambda>rows.
         let pps = double_of_u64 (calc_pps oor (total rec) (total prev) t);
             drop = double_of_u64 (calc_drop_pps oor (total rec) (total prev) t)
         in Inr (rows @ [Row lbl Total pps (Drop_pps drop) t])))"

definition print_kthread ::
  "(real \<Rightarrow> u64) \<Rightarrow> nat \<Rightarrow> stats_record \<Rightarrow> stats_record \<Rightarrow> abort + line list"
where
  "print_kthread oor nr_cpus stats_rec stats_prev =
     print_drop_block oor nr_cpus ''cpumap_kthread'' (kthread stats_rec) (kthread stats_prev)"

definition print_redir_err ::
  "(real \<Rightarrow> u64) \<Rightarrow> nat \<Rightarrow> stats_record \<Rightarrow> stats_record \<Rightarrow> abort + line list"
where
  "print_redir_err oor nr_cpus stats_rec stats_prev =
     print_drop_block oor nr_cpus ''redirect_err'' (redir_err stats_rec) (redir_err stats_prev)"

definition stats_print ::
  "(real \<Rightarrow> u64) \<Rightarrow> nat \<Rightarrow> stats_record \<Rightarrow> stats_record \<Rightarrow> abort + line list"
where
  "stats_print oor nr_cpus stats_rec stats_prev =
     bind_abort (print_rx_cnt oor nr_cpus stats_rec stats_prev) (\<lambda>rx.
     bind_abort (for_loop (print_enq oor nr_cpus stats_rec stats_prev) [0..<MAX_CPUS]) (\<lambda>enqs.
     bind_abort (print_kthread oor nr_cpus stats_rec stats_prev) (\<lambda>kt.
     bind_abort (print_redir_err oor nr_cpus stats_rec stats_prev) (\<lambda>re.
     Inr ([Header] @ rx @ enqs @ kt @ re @ [Blank])))))"

section \<open>The poll loop\<close>

text \<open>
  The state of \<^verbatim>\<open>stats_poll\<close>: the heap of \<^verbatim>\<open>struct stats_record\<close> objects, the two
  local pointers \<^verbatim>\<open>record\<close> and \<^verbatim>\<open>prev\<close>, and what was written to \<^verbatim>\<open>stderr\<close> and
  \<^verbatim>\<open>stdout\<close> so far.
\<close>

record poll_state =
  heap :: "nat \<rightharpoonup> stats_record"
  record_p :: nat
  prev_p :: nat
  stderr :: "err_line list"
  stdout :: "line list"

text \<open>\<^verbatim>\<open>swap(a, b)\<close> on the contents of the two pointer variables \<^verbatim>\<open>*a\<close> and \<^verbatim>\<open>*b\<close>.\<close>

definition swap :: "nat \<times> nat \<Rightarrow> nat \<times> nat" where
  "swap ab = (let a = fst ab; b = snd ab; tmp = a; a = b; b = tmp in (a, b))"

text \<open>The statement \<^verbatim>\<open>swap(&prev, &record)\<close> of \<^verbatim>\<open>stats_poll\<close>, on its state.\<close>

definition poll_swap :: "poll_state \<Rightarrow> poll_state" where
  "poll_swap st =
     (let (prev', record') = swap (prev_p st, record_p st)
      in st\<lparr>prev_p := prev', record_p := record'\<rparr>)"

text \<open>
  One iteration of \<^verbatim>\<open>while (1)\<close>: \<^verbatim>\<open>swap(&prev, &record)\<close>, \<^verbatim>\<open>stats_collect(record)\<close>,
  \<^verbatim>\<open>stats_print(record, prev)\<close>, \<^verbatim>\<open>sleep(interval)\<close> (which changes nothing here).
  A pointer that is not an object of the heap is undefined.
\<close>

definition stats_poll_cycle ::
  "(real \<Rightarrow> u64) \<Rightarrow> nat \<Rightarrow> (nat \<Rightarrow> int) \<Rightarrow> (nat \<Rightarrow> sys) \<Rightarrow> poll_state \<Rightarrow> abort + poll_state"
where
  "stats_poll_cycle oor nr_cpus map_fd env st =
     (let st = poll_swap st in
      case heap st (record_p st) of
        None \<Rightarrow> Inl Undefined
      | Some rec \<Rightarrow>
          bind_abort (stats_collect nr_cpus map_fd env (rec, stderr st)) (\<lambda>(rec', err').
          let st = st\<lparr>heap := (heap st)(record_p st \<mapsto> rec'), stderr := err'\<rparr> in
          case heap st (prev_p st) of
            None \<Rightarrow> Inl Undefined
          | Some prev_rec \<Rightarrow>
              bind_abort (stats_print oor nr_cpus rec' prev_rec) (\<lambda>out.
              Inr (st\<lparr>stdout := stdout st @ out\<rparr>))))"

text \<open>
  The loop never returns: \<open>poll_loop n\<close> runs its first \<open>n\<close> iterations, \<open>envs c\<close> being
  the environment of iteration \<open>c\<close>, and returns the state reached, or the abort that
  ended the process.
\<close>

fun poll_loop ::
  "(real \<Rightarrow> u64) \<Rightarrow> nat \<Rightarrow> (nat \<Rightarrow> int) \<Rightarrow> (nat \<Rightarrow> nat \<Rightarrow> sys) \<Rightarrow> nat \<Rightarrow> nat \<Rightarrow> poll_state
     \<Rightarrow> abort + poll_state"
where
  "poll_loop oor nr_cpus map_fd envs c 0 st = Inr st"
| "poll_loop oor nr_cpus map_fd envs c (Suc n) st =
     bind_abort (stats_poll_cycle oor nr_cpus map_fd (envs c) st)
       (poll_loop oor nr_cpus map_fd envs (Suc c) n)"

text \<open>
  \<^verbatim>\<open>stats_poll\<close> up to the end of the \<open>n\<close>-th iteration of its loop. \<open>malloc1\<close> and
  \<open>malloc2\<close> are the results of \<^verbatim>\<open>malloc\<close> in the two calls of \<^verbatim>\<open>alloc_stats_record\<close>,
  \<open>env0\<close> is the environment of the first \<^verbatim>\<open>stats_collect\<close>.
\<close>

definition stats_poll ::
  "(real \<Rightarrow> u64) \<Rightarrow> nat \<Rightarrow> (nat \<Rightarrow> int) \<Rightarrow> (nat \<Rightarrow> nat option) \<Rightarrow> (nat \<Rightarrow> nat option)
     \<Rightarrow> (nat \<Rightarrow> sys) \<Rightarrow> (nat \<Rightarrow> nat \<Rightarrow> sys) \<Rightarrow> nat \<Rightarrow> abort + poll_state"
where
  "stats_poll oor nr_cpus map_fd malloc1 malloc2 env0 envs n =
     bind_abort (alloc_stats_record nr_cpus malloc1) (\<lambda>(record', rec).
     bind_abort (alloc_stats_record nr_cpus malloc2) (\<lambda>(prev', prev_rec).
     let heap0 = [record' \<mapsto> rec, prev' \<mapsto> prev_rec] in
     case heap0 record' of
       None \<Rightarrow> Inl Undefined
     | Some rec \<Rightarrow>
         bind_abort (stats_collect nr_cpus map_fd env0 (rec, [])) (\<lambda>(rec', err').
         poll_loop oor nr_cpus map_fd envs 0 n
           \<lparr>heap = heap0(record' \<mapsto> rec'), record_p = record', prev_p = prev',
            stderr = err', stdout = []\<rparr>)))"

section \<open>Example inputs\<close>

text \<open>Out-of-range conversions that return 0, as GCC's x86-64 code does from \<open>2^64\<close> on.\<close>

definition oor_zero :: "real \<Rightarrow> u64" where
  "oor_zero x = 0"

text \<open>
  A machine with two CPUs: a lookup that succeeds with the counters \<open>(3, 1)\<close> and
  \<open>(4, 2)\<close>, read at 1 s + 5 ns, and a record as \<^verbatim>\<open>alloc_stats_record\<close> leaves it.
\<close>

definition ex_env :: sys where
  "ex_env =
     \<lparr>bpf_map_lookup_elem =
        (\<lambda>fd key. Some [\<lparr>processed = 3, dropped = 1\<rparr>, \<lparr>processed = 4, dropped = 2\<rparr>]),
      clock_gettime = (0, \<lparr>tv_sec = 1, tv_nsec = 5\<rparr>)\<rparr>"

definition ex_zero :: record_t where
  "ex_zero =
     \<lparr>timestamp = 0, total = \<lparr>processed = 0, dropped = 0\<rparr>,
      cpu = [\<lparr>processed = 0, dropped = 0\<rparr>, \<lparr>processed = 0, dropped = 0\<rparr>]\<rparr>"

definition ex_collected :: record_t where
  "ex_collected =
     \<lparr>timestamp = 1000000005, total = \<lparr>processed = 7, dropped = 3\<rparr>,
      cpu = [\<lparr>processed = 3, dropped = 1\<rparr>, \<lparr>processed = 4, dropped = 2\<rparr>]\<rparr>"

text \<open>
  Counters for the rate functions: a counter at 0, at \<open>2^64 - 1\<close>, at \<open>2^53 + 1\<close>, at
  1100 and at 1; two records 1.1 s apart; a pair of samples two seconds apart; and a
  counter that went down from 100 to 5.
\<close>


definition cex_p :: datarec where
  "cex_p = \<lparr>processed = 0, dropped = 0\<rparr>"

definition cex_max :: datarec where
  "cex_max = \<lparr>processed = 2 ^ 64 - 1, dropped = 0\<rparr>"

definition cex_big :: datarec where
  "cex_big = \<lparr>processed = 2 ^ 53 + 1, dropped = 0\<rparr>"

definition cex_1100 :: datarec where
  "cex_1100 = \<lparr>processed = 1100, dropped = 0\<rparr>"

definition cex_t0 :: record_t where
  "cex_t0 = \<lparr>timestamp = 1000000000, total = cex_p, cpu = [cex_p]\<rparr>"

definition cex_t1 :: record_t where
  "cex_t1 = \<lparr>timestamp = 2100000000, total = cex_1100, cpu = [cex_1100]\<rparr>"

definition cex_b :: datarec where
  "cex_b = \<lparr>processed = 1, dropped = 0\<rparr>"

definition ex_c :: datarec where
  "ex_c = \<lparr>processed = 201, dropped = 7\<rparr>"

definition ex_d :: datarec where
  "ex_d = \<lparr>processed = 100, dropped = 2\<rparr>"

definition ex_reset :: datarec where
  "ex_reset = \<lparr>processed = 5, dropped = 0\<rparr>"

definition ex_late :: record_t where
  "ex_late = \<lparr>timestamp = 3000000000, total = ex_c, cpu = [ex_c]\<rparr>"

definition ex_early :: record_t where
  "ex_early = \<lparr>timestamp = 1000000000, total = ex_d, cpu = [ex_d]\<rparr>"

section \<open>The report as the specification words it\<close>

text \<open>
  The blocks of a report, written from the specification: a row per CPU whose rate is not
  zero, in ascending order of the CPU, then the total row; the total row of an enqueue
  block only when its rate is not zero. These definitions are compared with
  \<^verbatim>\<open>stats_print\<close> below; they read the arrays within their bounds only.
\<close>

definition pps_of :: "(real \<Rightarrow> u64) \<Rightarrow> record_t \<Rightarrow> record_t \<Rightarrow> nat \<Rightarrow> u64" where
  "pps_of oor rec prev i = calc_pps oor (cpu rec ! i) (cpu prev ! i) (calc_period rec prev)"

definition drop_of :: "(real \<Rightarrow> u64) \<Rightarrow> record_t \<Rightarrow> record_t \<Rightarrow> nat \<Rightarrow> u64" where
  "drop_of oor rec prev i =
     calc_drop_pps oor (cpu rec ! i) (cpu prev ! i) (calc_period rec prev)"

definition total_pps :: "(real \<Rightarrow> u64) \<Rightarrow> record_t \<Rightarrow> record_t \<Rightarrow> u64" where
  "total_pps oor rec prev = calc_pps oor (total rec) (total prev) (calc_period rec prev)"

definition total_drop :: "(real \<Rightarrow> u64) \<Rightarrow> record_t \<Rightarrow> record_t \<Rightarrow> u64" where
  "total_drop oor rec prev = calc_drop_pps oor (total rec) (total prev) (calc_period rec prev)"

definition spec_rx_block :: "(real \<Rightarrow> u64) \<Rightarrow> nat \<Rightarrow> record_t \<Rightarrow> record_t \<Rightarrow> line list" where
  "spec_rx_block oor n rec prev =
     [Row ''XDP-RX'' (Cpu i) (double_of_u64 (pps_of oor rec prev i)) (Drop_str ''(nan)'')
        (calc_period rec prev).
      i \<leftarrow> [0..<n], pps_of oor rec prev i \<noteq> 0]
     @ [Row ''XDP-RX'' Total (double_of_u64 (total_pps oor rec prev)) (Drop_str ''(nan)'')
          (calc_period rec prev)]"

definition spec_enq_block ::
  "(real \<Rightarrow> u64) \<Rightarrow> nat \<Rightarrow> record_t \<Rightarrow> record_t \<Rightarrow> nat \<Rightarrow> line list"
where
  "spec_enq_block oor n rec prev to_cpu =
     [Row ''cpumap-enqueue'' (Cpu_to i to_cpu) (double_of_u64 (pps_of oor rec prev i))
        (Drop_pps (double_of_u64 (drop_of oor rec prev i))) (calc_period rec prev).
      i \<leftarrow> [0..<n], pps_of oor rec prev i \<noteq> 0]
     @ (if total_pps oor rec prev \<noteq> 0
        then [Row ''cpumap-enqueue'' (Sum_to to_cpu) (double_of_u64 (total_pps oor rec prev))
                (Drop_pps (double_of_u64 (total_drop oor rec prev))) (calc_period rec prev)]
        else [])"

definition spec_drop_block ::
  "(real \<Rightarrow> u64) \<Rightarrow> nat \<Rightarrow> string \<Rightarrow> record_t \<Rightarrow> record_t \<Rightarrow> line list"
where
  "spec_drop_block oor n lbl rec prev =
     [Row lbl (Cpu i) (double_of_u64 (pps_of oor rec prev i))
        (Drop_pps (double_of_u64 (drop_of oor rec prev i))) (calc_period rec prev).
      i \<leftarrow> [0..<n], pps_of oor rec prev i \<noteq> 0]
     @ [Row lbl Total (double_of_u64 (total_pps oor rec prev))
          (Drop_pps (double_of_u64 (total_drop oor rec prev))) (calc_period rec prev)]"

definition spec_render :: "(real \<Rightarrow> u64) \<Rightarrow> nat \<Rightarrow> stats_record \<Rightarrow> stats_record \<Rightarrow> line list" where
  "spec_render oor n stats_rec stats_prev =
     [Header]
     @ spec_rx_block oor n (rx_cnt stats_rec) (rx_cnt stats_prev)
     @ concat (map (\<lambda>to_cpu. spec_enq_block oor n (enq stats_rec ! to_cpu)
                                 (enq stats_prev ! to_cpu) to_cpu) [0..<MAX_CPUS])
     @ spec_drop_block oor n ''cpumap_kthread'' (kthread stats_rec) (kthread stats_prev)
     @ spec_drop_block oor n ''redirect_err'' (redir_err stats_rec) (redir_err stats_prev)
     @ [Blank]"

text \<open>
  The shape \<^verbatim>\<open>alloc_stats_record\<close> gives a snapshot: every per-CPU array has \<open>n\<close> entries
  and there are \<open>MAX_CPUS\<close> enqueue records.
\<close>

definition wf_record :: "nat \<Rightarrow> record_t \<Rightarrow> bool" where
  "wf_record n r = (length (cpu r) = n)"

definition wf_stats :: "nat \<Rightarrow> stats_record \<Rightarrow> bool" where
  "wf_stats n s =
     (wf_record n (rx_cnt s) \<and> wf_record n (redir_err s) \<and> wf_record n (kthread s) \<and>
      length (enq s) = MAX_CPUS \<and> list_all (wf_record n) (enq s))"

text \<open>Two snapshots with the same counters; their timestamps may differ.\<close>

definition same_counters_record :: "record_t \<Rightarrow> record_t \<Rightarrow> bool" where
  "same_counters_record r p = (total r = total p \<and> cpu r = cpu p)"

definition same_counters :: "stats_record \<Rightarrow> stats_record \<Rightarrow> bool" where
  "same_counters s s' =
     (same_counters_record (rx_cnt s) (rx_cnt s') \<and>
      same_counters_record (redir_err s) (redir_err s') \<and>
      same_counters_record (kthread s) (kthread s') \<and>
      list_all2 same_counters_record (enq s) (enq s'))"

text \<open>A snapshot of a machine with one CPU, every table holding the record \<open>ex_late\<close>.\<close>

definition ex_stats :: stats_record where
  "ex_stats =
     \<lparr>rx_cnt = ex_late, redir_err = ex_late, kthread = ex_late, enq = replicate 12 ex_late\<rparr>"

text \<open>The snapshot taken two seconds before \<open>ex_stats\<close>.\<close>

definition ex_stats_early :: stats_record where
  "ex_stats_early =
     \<lparr>rx_cnt = ex_early, redir_err = ex_early, kthread = ex_early,
      enq = replicate 12 ex_early\<rparr>"

text \<open>
  Scenario 1 of the specification, on four CPUs: the RX records of the two snapshots, with
  the totals \<^verbatim>\<open>map_collect_percpu\<close> computes for them; nothing was dropped.
\<close>

definition scenario_prev :: stats_record where
  "scenario_prev = ex_stats_early\<lparr>rx_cnt :=
     \<lparr>timestamp = 0, total = \<lparr>processed = 100, dropped = 0\<rparr>,
      cpu = [\<lparr>processed = 100, dropped = 0\<rparr>, \<lparr>processed = 0, dropped = 0\<rparr>,
             \<lparr>processed = 0, dropped = 0\<rparr>, \<lparr>processed = 0, dropped = 0\<rparr>]\<rparr>\<rparr>"

definition scenario_curr :: stats_record where
  "scenario_curr = ex_stats\<lparr>rx_cnt :=
     \<lparr>timestamp = 1000000000, total = \<lparr>processed = 250, dropped = 0\<rparr>,
      cpu = [\<lparr>processed = 200, dropped = 0\<rparr>, \<lparr>processed = 50, dropped = 0\<rparr>,
             \<lparr>processed = 0, dropped = 0\<rparr>, \<lparr>processed = 0, dropped = 0\<rparr>]\<rparr>\<rparr>"

section \<open>The tables of one collection\<close>

text \<open>
  The calls of \<^verbatim>\<open>map_collect_percpu\<close> in \<^verbatim>\<open>stats_collect\<close>, in their order: for each table
  the position of its call, the descriptor and the key it is looked up with, and the
  record it is collected into.
\<close>

datatype table = Rx_cnt | Redir_err | Enq nat | Kthread

fun call_index :: "table \<Rightarrow> nat" where
  "call_index Rx_cnt = 0"
| "call_index Redir_err = 1"
| "call_index (Enq i) = 2 + i"
| "call_index Kthread = 2 + MAX_CPUS"

fun table_fd :: "(nat \<Rightarrow> int) \<Rightarrow> table \<Rightarrow> int" where
  "table_fd map_fd Rx_cnt = map_fd 1"
| "table_fd map_fd Redir_err = map_fd 2"
| "table_fd map_fd (Enq i) = map_fd 3"
| "table_fd map_fd Kthread = map_fd 4"

fun table_key :: "table \<Rightarrow> u32" where
  "table_key Rx_cnt = 0"
| "table_key Redir_err = 1"
| "table_key (Enq i) = of_nat i"
| "table_key Kthread = 0"

fun get_table :: "table \<Rightarrow> stats_record \<Rightarrow> record_t" where
  "get_table Rx_cnt s = rx_cnt s"
| "get_table Redir_err s = redir_err s"
| "get_table (Enq i) s = enq s ! i"
| "get_table Kthread s = kthread s"

definition tables :: "table list" where
  "tables = [Rx_cnt, Redir_err] @ map Enq [0..<MAX_CPUS] @ [Kthread]"

definition lookup_of :: "(nat \<Rightarrow> int) \<Rightarrow> (nat \<Rightarrow> sys) \<Rightarrow> table \<Rightarrow> datarec list option" where
  "lookup_of map_fd env tbl =
     bpf_map_lookup_elem (env (call_index tbl)) (table_fd map_fd tbl) (table_key tbl)"

text \<open>
  An environment in which the clock works and a lookup that succeeds yields one value
  per CPU, as the kernel does for a per-CPU map.
\<close>

definition call_ok :: "nat \<Rightarrow> (nat \<Rightarrow> int) \<Rightarrow> (nat \<Rightarrow> sys) \<Rightarrow> table \<Rightarrow> bool" where
  "call_ok n map_fd env tbl =
     (0 \<le> fst (clock_gettime (env (call_index tbl))) \<and>
      (case lookup_of map_fd env tbl of None \<Rightarrow> True | Some vs \<Rightarrow> length vs = n))"

definition cycle_env_ok :: "nat \<Rightarrow> (nat \<Rightarrow> int) \<Rightarrow> (nat \<Rightarrow> sys) \<Rightarrow> bool" where
  "cycle_env_ok n map_fd env = list_all (call_ok n map_fd env) tables"

text \<open>
  What a table's record is after one \<^verbatim>\<open>stats_collect\<close> in such an environment: the
  record as it was when the lookup failed, and otherwise the values read, their sums and
  the time read after them.
\<close>

definition clock_ns :: "int \<times> timespec \<Rightarrow> u64" where
  "clock_ns ck = tv_sec (snd ck) * word_of_int NANOSEC_PER_SEC + tv_nsec (snd ck)"

definition collected :: "datarec list \<Rightarrow> u64 \<Rightarrow> record_t" where
  "collected vs now =
     \<lparr>timestamp = now,
      total = \<lparr>processed = sum_list (map processed vs), dropped = sum_list (map dropped vs)\<rparr>,
      cpu = vs\<rparr>"

definition table_after :: "(nat \<Rightarrow> int) \<Rightarrow> (nat \<Rightarrow> sys) \<Rightarrow> table \<Rightarrow> record_t \<Rightarrow> record_t" where
  "table_after map_fd env tbl r =
     (case lookup_of map_fd env tbl of
        None \<Rightarrow> r
      | Some vs \<Rightarrow> collected vs (clock_ns (clock_gettime (env (call_index tbl)))))"

definition failures :: "(nat \<Rightarrow> int) \<Rightarrow> (nat \<Rightarrow> sys) \<Rightarrow> table list \<Rightarrow> err_line list" where
  "failures map_fd env tbls =
     [Lookup_failed (table_key tbl). tbl \<leftarrow> tbls, lookup_of map_fd env tbl = None]"

definition stats_after :: "(nat \<Rightarrow> int) \<Rightarrow> (nat \<Rightarrow> sys) \<Rightarrow> stats_record \<Rightarrow> stats_record" where
  "stats_after map_fd env rec =
     \<lparr>rx_cnt = table_after map_fd env Rx_cnt (rx_cnt rec),
      redir_err = table_after map_fd env Redir_err (redir_err rec),
      kthread = table_after map_fd env Kthread (kthread rec),
      enq = map (\<lambda>i. table_after map_fd env (Enq i) (enq rec ! i)) [0..<MAX_CPUS]\<rparr>"

text \<open>
  A state of the loop whose two pointers are two distinct snapshots of the allocated
  shape.
\<close>

definition wf_poll :: "nat \<Rightarrow> poll_state \<Rightarrow> bool" where
  "wf_poll n st =
     (record_p st \<noteq> prev_p st \<and>
      (case heap st (record_p st) of None \<Rightarrow> False | Some r \<Rightarrow> wf_stats n r) \<and>
      (case heap st (prev_p st) of None \<Rightarrow> False | Some p \<Rightarrow> wf_stats n p))"

text \<open>
  A machine with one CPU in the loop: the two snapshots at the addresses 10 and 20, the
  descriptors 1 to 4, and two environments: one in which the lookup of the key 5 in the
  enqueue table fails, and one in which the clock fails.
\<close>

definition ex_state :: poll_state where
  "ex_state =
     \<lparr>heap = [10 \<mapsto> ex_stats, 20 \<mapsto> ex_stats_early], record_p = 10, prev_p = 20,
      stderr = [], stdout = []\<rparr>"

definition ex_map_fd :: "nat \<Rightarrow> int" where
  "ex_map_fd i = int i"

definition ex_env_fail :: "nat \<Rightarrow> sys" where
  "ex_env_fail j =
     \<lparr>bpf_map_lookup_elem =
        (\<lambda>fd key. if fd = 3 \<and> key = 5 then None else Some [\<lparr>processed = 300, dropped = 9\<rparr>]),
      clock_gettime = (0, \<lparr>tv_sec = 5, tv_nsec = 0\<rparr>)\<rparr>"

definition ex_env_noclock :: "nat \<Rightarrow> sys" where
  "ex_env_noclock j =
     \<lparr>bpf_map_lookup_elem = (\<lambda>fd key. Some [\<lparr>processed = 300, dropped = 9\<rparr>]),
      clock_gettime = (- 1, \<lparr>tv_sec = 0, tv_nsec = 0\<rparr>)\<rparr>"

section \<open>Facts about the collection\<close>

lemma upt_2: "[0..<2] = [0, Suc 0]"
  by (simp add: upt_conv_Cons)

lemma collect_loop_Inr:
  "collect_loop values is (rec, sp, sd) = Inr (rec', sp', sd') \<Longrightarrow>
     sp' = sp + sum_list (map (\<lambda>i. processed (values ! i)) is) \<and>
     sd' = sd + sum_list (map (\<lambda>i. dropped (values ! i)) is) \<and>
     length (cpu rec') = length (cpu rec) \<and>
     timestamp rec' = timestamp rec \<and> total rec' = total rec \<and>
     (\<forall>i \<in> set is. i < length values \<and> i < length (cpu rec) \<and> cpu rec' ! i = values ! i) \<and>
     (\<forall>j. j \<notin> set is \<longrightarrow> cpu rec' ! j = cpu rec ! j)"
proof (induction "is" arbitrary: rec sp sd)
  case Nil
  then show ?case by simp
next
  case (Cons i "is")
  from Cons.prems have inb: "i < length values" "i < length (cpu rec)"
    by (auto split: if_splits)
  let ?c1 = "(cpu rec)[i := (cpu rec ! i)\<lparr>processed := processed (values ! i)\<rparr>]"
  let ?c2 = "?c1[i := (?c1 ! i)\<lparr>dropped := dropped (values ! i)\<rparr>]"
  let ?rec = "rec\<lparr>cpu := ?c2\<rparr>"
  from Cons.prems inb have step:
    "collect_loop values is (?rec, sp + processed (values ! i), sd + dropped (values ! i))
       = Inr (rec', sp', sd')"
    by (simp add: Let_def)
  note ih = Cons.IH [OF step]
  have c2i: "?c2 ! i = values ! i" using inb by simp
  have c2j: "\<And>j. j \<noteq> i \<Longrightarrow> ?c2 ! j = cpu rec ! j" by simp
  show ?case
  proof (intro conjI ballI allI impI)
    fix k assume "k \<in> set (i # is)"
    show "cpu rec' ! k = values ! k"
    proof (cases "k \<in> set is")
      case True then show ?thesis using ih by blast
    next
      case False
      with \<open>k \<in> set (i # is)\<close> have "k = i" by simp
      moreover from ih False have "cpu rec' ! k = cpu ?rec ! k" by blast
      ultimately show ?thesis using c2i by simp
    qed
    show "k < length values" using ih inb \<open>k \<in> set (i # is)\<close> by auto
    show "k < length (cpu rec)" using ih inb \<open>k \<in> set (i # is)\<close> by auto
  next
    fix j assume "j \<notin> set (i # is)"
    then have "j \<noteq> i" "j \<notin> set is" by auto
    with ih have "cpu rec' ! j = cpu ?rec ! j" by blast
    then show "cpu rec' ! j = cpu rec ! j" using \<open>j \<noteq> i\<close> by simp
  qed (use ih in \<open>simp_all add: add.assoc\<close>)
qed

lemma map_collect_percpu_True:
  assumes "map_collect_percpu nr_cpus env fd key (rec, err) = Inr (True, rec', err')"
  shows "\<exists>values now. bpf_map_lookup_elem env fd key = Some values \<and>
           gettime (clock_gettime env) = Inr now \<and>
           timestamp rec' = now \<and> err' = err \<and>
           length (cpu rec') = length (cpu rec) \<and>
           nr_cpus \<le> length values \<and> nr_cpus \<le> length (cpu rec) \<and>
           (\<forall>i<nr_cpus. cpu rec' ! i = values ! i) \<and>
           (\<forall>j\<ge>nr_cpus. cpu rec' ! j = cpu rec ! j) \<and>
           processed (total rec') = sum_list (map (\<lambda>i. processed (values ! i)) [0..<nr_cpus]) \<and>
           dropped (total rec') = sum_list (map (\<lambda>i. dropped (values ! i)) [0..<nr_cpus])"
proof -
  from assms obtain vals where v: "bpf_map_lookup_elem env fd key = Some vals"
    by (auto simp: map_collect_percpu_def Let_def split: option.splits)
  from assms v obtain now where n: "gettime (clock_gettime env) = Inr now"
    by (auto simp: map_collect_percpu_def Let_def split: sum.splits)
  from assms v n obtain r1 sp sd where
    lp: "collect_loop vals [0..<nr_cpus] (rec\<lparr>timestamp := now\<rparr>, 0, 0) = Inr (r1, sp, sd)"
    and rr: "rec' = r1\<lparr>total := (total r1)\<lparr>processed := sp, dropped := sd\<rparr>\<rparr>" and e: "err' = err"
    by (auto simp: map_collect_percpu_def Let_def split: sum.splits)
  note f = collect_loop_Inr [OF lp]
  have le1: "nr_cpus \<le> length vals"
  proof (cases nr_cpus)
    case 0 then show ?thesis by simp
  next
    case (Suc m)
    then have "m \<in> set [0..<nr_cpus]" by simp
    with f have "m < length vals" by blast
    with Suc show ?thesis by simp
  qed
  have le2: "nr_cpus \<le> length (cpu rec)"
  proof (cases nr_cpus)
    case 0 then show ?thesis by simp
  next
    case (Suc m)
    then have "m \<in> set [0..<nr_cpus]" by simp
    with f have "m < length (cpu (rec\<lparr>timestamp := now\<rparr>))" by blast
    with Suc show ?thesis by simp
  qed
  show ?thesis
    using v n rr e f le1 le2 by (intro exI [of _ vals] exI [of _ now]) auto
qed


lemma ex_env_collects:
  "map_collect_percpu 2 ex_env fd key (ex_zero, []) = Inr (True, ex_collected, [])"
  by (simp add: map_collect_percpu_def ex_env_def ex_zero_def ex_collected_def gettime_def
      NANOSEC_PER_SEC_def upt_2)

text \<open>
  C2. After a call of \<^verbatim>\<open>map_collect_percpu\<close> that returns true, the total of the record is
  the sum of its per-CPU entries over all \<open>nr_cpus\<close> CPUs, for the processed and for the
  dropped counter, in 64-bit arithmetic.
\<close>

theorem map_collect_percpu_total_is_sum:
  assumes "map_collect_percpu nr_cpus env fd key (rec, err) = Inr (True, rec', err')"
  shows "processed (total rec') = (\<Sum>i<nr_cpus. processed (cpu rec' ! i)) \<and>
         dropped (total rec') = (\<Sum>i<nr_cpus. dropped (cpu rec' ! i))"
proof -
  from map_collect_percpu_True [OF assms] obtain vals where
    c: "\<forall>i<nr_cpus. cpu rec' ! i = vals ! i" and
    p: "processed (total rec') = sum_list (map (\<lambda>i. processed (vals ! i)) [0..<nr_cpus])" and
    d: "dropped (total rec') = sum_list (map (\<lambda>i. dropped (vals ! i)) [0..<nr_cpus])"
    by blast
  have "sum_list (map (\<lambda>i. processed (vals ! i)) [0..<nr_cpus])
          = (\<Sum>i<nr_cpus. processed (vals ! i))"
    by (simp add: interv_sum_list_conv_sum_set_nat atLeast0LessThan)
  also have "\<dots> = (\<Sum>i<nr_cpus. processed (cpu rec' ! i))"
    using c by (intro sum.cong) simp_all
  finally have 1: "processed (total rec') = (\<Sum>i<nr_cpus. processed (cpu rec' ! i))"
    using p by simp
  have "sum_list (map (\<lambda>i. dropped (vals ! i)) [0..<nr_cpus])
          = (\<Sum>i<nr_cpus. dropped (vals ! i))"
    by (simp add: interv_sum_list_conv_sum_set_nat atLeast0LessThan)
  also have "\<dots> = (\<Sum>i<nr_cpus. dropped (cpu rec' ! i))"
    using c by (intro sum.cong) simp_all
  finally have 2: "dropped (total rec') = (\<Sum>i<nr_cpus. dropped (cpu rec' ! i))"
    using d by simp
  from 1 2 show ?thesis ..
qed


theorem map_collect_percpu_total_is_sum_witness:
  "map_collect_percpu 2 ex_env 3 0 (ex_zero, []) = Inr (True, ex_collected, []) \<and>
   processed (total ex_collected) = (\<Sum>i<2. processed (cpu ex_collected ! i)) \<and>
   dropped (total ex_collected) = (\<Sum>i<2. dropped (cpu ex_collected ! i))"
  using map_collect_percpu_total_is_sum [OF ex_env_collects [of 3 0]] ex_env_collects [of 3 0]
  by simp


section \<open>Facts about binary64 rounding\<close>

text \<open>
  Rounding is monotone, leaves the integers up to \<open>2^53\<close> and every \<open>m * 2^k\<close> with
  \<open>m < 2^53\<close> unchanged, and is computed by \<open>round_double_eval\<close> once the binade of the
  argument is known.
\<close>

lemma round_half_even_of_int [simp]: "round_half_even (real_of_int k) = k"
  by (simp add: round_half_even_def)

lemma round_half_even_bounds: "\<lfloor>y\<rfloor> \<le> round_half_even y \<and> round_half_even y \<le> \<lfloor>y\<rfloor> + 1"
  by (simp add: round_half_even_def Let_def)

lemma round_half_even_mono:
  assumes "y \<le> z"
  shows "round_half_even y \<le> round_half_even z"
proof (cases "\<lfloor>y\<rfloor> = \<lfloor>z\<rfloor>")
  case True
  with assms have "y - real_of_int \<lfloor>y\<rfloor> \<le> z - real_of_int \<lfloor>z\<rfloor>" by simp
  with True show ?thesis by (auto simp: round_half_even_def Let_def)
next
  case False
  with assms have "\<lfloor>y\<rfloor> < \<lfloor>z\<rfloor>" using floor_mono [OF assms] by simp
  then have "\<lfloor>y\<rfloor> + 1 \<le> \<lfloor>z\<rfloor>" by simp
  with round_half_even_bounds [of y] round_half_even_bounds [of z] show ?thesis by linarith
qed

lemma round_half_even_ge: "real_of_int k \<le> y \<Longrightarrow> k \<le> round_half_even y"
  using round_half_even_mono [of "real_of_int k" y] by simp

lemma round_half_even_le: "y \<le> real_of_int k \<Longrightarrow> round_half_even y \<le> k"
  using round_half_even_mono [of y "real_of_int k"] by simp

lemma ulp_pos [simp]: "0 < ulp x"
  by (simp add: ulp_def)

lemma ulp_nonneg [simp]: "0 \<le> ulp x"
  by (simp add: ulp_def)

lemma binade_bounds:
  assumes "0 < x"
  shows "2 powr real_of_int (binade x) \<le> x" "x < 2 powr (real_of_int (binade x) + 1)"
  using floor_log_eq_powr_iff [of x 2 "binade x"] assms by (simp_all add: binade_def)

lemma binade_eq:
  assumes "0 < x" "2 powr real_of_int e \<le> x" "x < 2 powr (real_of_int e + 1)"
  shows "binade x = e"
  using floor_log_eq_powr_iff [of x 2 e] assms by (simp add: binade_def)

lemma binade_mono:
  assumes "0 < x" "x \<le> y"
  shows "binade x \<le> binade y"
  unfolding binade_def using assms by (intro floor_mono) simp

lemma round_double_nonneg: "0 \<le> x \<Longrightarrow> 0 \<le> round_double x"
proof -
  assume "0 \<le> x"
  then have "real_of_int 0 \<le> x / ulp x" by (simp add: divide_nonneg_pos)
  then have "0 \<le> round_half_even (x / ulp x)" by (rule round_half_even_ge)
  then show ?thesis by (simp add: round_double_def)
qed

lemma round_double_le_next:
  assumes "0 < x"
  shows "round_double x \<le> 2 powr (real_of_int (max (binade x) (- 1022)) + 1)"
proof -
  let ?e = "max (binade x) (- 1022)"
  have "x < 2 powr (real_of_int (binade x) + 1)" using assms by (rule binade_bounds)
  also have "\<dots> \<le> 2 powr (real_of_int ?e + 1)" by (intro powr_mono) simp_all
  finally have x: "x \<le> 2 powr (real_of_int ?e + 1)" by simp
  have s: "2 powr (real_of_int ?e + 1) = real_of_int (2 ^ 53) * ulp x"
  proof -
    have "2 powr (real_of_int ?e + 1) = 2 powr (53 + real_of_int (?e - 52))"
      by (simp add: add.commute)
    also have "\<dots> = 2 powr 53 * 2 powr real_of_int (?e - 52)" by (rule powr_add)
    finally show ?thesis by (simp add: ulp_def)
  qed
  from x s have "x / ulp x \<le> real_of_int (2 ^ 53)" by (simp add: pos_divide_le_eq)
  then have "round_half_even (x / ulp x) \<le> 2 ^ 53" by (rule round_half_even_le)
  then have "real_of_int (round_half_even (x / ulp x)) * ulp x \<le> real_of_int (2 ^ 53) * ulp x"
    by (intro mult_right_mono) (simp_all del: of_int_power of_int_numeral)
  with s assms show ?thesis by (simp add: round_double_def)
qed

lemma round_double_ge_binade:
  assumes "0 < x" "- 1022 \<le> binade x"
  shows "2 powr real_of_int (binade x) \<le> round_double x"
proof -
  from assms(2) have u: "ulp x = 2 powr real_of_int (binade x - 52)" by (simp add: ulp_def max_def)
  have s: "2 powr real_of_int (binade x) = real_of_int (2 ^ 52) * ulp x"
  proof -
    have "2 powr real_of_int (binade x) = 2 powr (52 + real_of_int (binade x - 52))" by simp
    also have "\<dots> = 2 powr 52 * 2 powr real_of_int (binade x - 52)" by (rule powr_add)
    finally show ?thesis by (simp add: u)
  qed
  have "2 powr real_of_int (binade x) \<le> x" using assms(1) by (rule binade_bounds)
  with s have "real_of_int (2 ^ 52) \<le> x / ulp x" by (simp add: pos_le_divide_eq)
  then have "2 ^ 52 \<le> round_half_even (x / ulp x)" by (rule round_half_even_ge)
  then have "real_of_int (2 ^ 52) * ulp x \<le> real_of_int (round_half_even (x / ulp x)) * ulp x"
    by (intro mult_right_mono) (simp_all del: of_int_power of_int_numeral)
  with s assms show ?thesis by (simp add: round_double_def)
qed

lemma round_double_mono:
  assumes "0 \<le> x" "x \<le> y"
  shows "round_double x \<le> round_double y"
proof (cases "x = 0")
  case True
  with assms round_double_nonneg [of y] show ?thesis by (simp add: round_double_def)
next
  case False
  with assms have x: "0 < x" and y: "0 < y" by simp_all
  let ?ex = "max (binade x) (- 1022)" and ?ey = "max (binade y) (- 1022)"
  have b: "binade x \<le> binade y" using x assms(2) by (rule binade_mono)
  show ?thesis
  proof (cases "?ex = ?ey")
    case True
    then have u: "ulp x = ulp y" by (simp add: ulp_def)
    have "x / ulp y \<le> y / ulp y" using assms(2) by (intro divide_right_mono) simp_all
    then have "round_half_even (x / ulp y) \<le> round_half_even (y / ulp y)"
      by (rule round_half_even_mono)
    then have "real_of_int (round_half_even (x / ulp y)) * ulp y
                 \<le> real_of_int (round_half_even (y / ulp y)) * ulp y"
      by (intro mult_right_mono) simp_all
    with x y u show ?thesis by (simp add: round_double_def)
  next
    case False
    with b have lt: "?ex < ?ey" by (simp add: max_def split: if_splits)
    then have ey: "?ey = binade y" "- 1022 \<le> binade y" by (simp_all add: max_def split: if_splits)
    have "round_double x \<le> 2 powr (real_of_int ?ex + 1)" using x by (rule round_double_le_next)
    also have "\<dots> \<le> 2 powr real_of_int (binade y)"
    proof -
      from lt have "?ex < binade y" by (simp only: ey(1))
      then have "?ex + 1 \<le> binade y" by linarith
      then have "real_of_int (?ex + 1) \<le> real_of_int (binade y)" by (simp only: of_int_le_iff)
      then show ?thesis by (intro powr_mono) simp_all
    qed
    also have "\<dots> \<le> round_double y" using y ey(2) by (rule round_double_ge_binade)
    finally show ?thesis .
  qed
qed

lemma round_double_exact:
  assumes "0 < m" "m < 2 ^ 53" "- 1074 \<le> k"
  shows "round_double (real_of_int m * 2 powr real_of_int k) = real_of_int m * 2 powr real_of_int k"
proof -
  let ?x = "real_of_int m * 2 powr real_of_int k"
  have x: "0 < ?x" using assms(1) by simp
  have "real_of_int m < real_of_int (2 ^ 53)" using assms(2) by (simp only: of_int_less_iff)
  then have "real_of_int m < 2 ^ 53" by simp
  then have "?x < 2 ^ 53 * 2 powr real_of_int k"
    by (intro mult_strict_right_mono) simp_all
  also have "\<dots> = 2 powr (real_of_int (52 + k) + 1)"
  proof -
    have "2 powr (real_of_int (52 + k) + 1) = 2 powr (53 + real_of_int k)"
      by (simp add: add.commute)
    also have "\<dots> = 2 powr 53 * 2 powr real_of_int k" by (rule powr_add)
    finally show ?thesis by simp
  qed
  finally have lt: "?x < 2 powr (real_of_int (52 + k) + 1)" .
  have "2 powr real_of_int (binade ?x) \<le> ?x" using x by (rule binade_bounds)
  then have "2 powr real_of_int (binade ?x) < 2 powr (real_of_int (52 + k) + 1)"
    using lt by (rule le_less_trans)
  then have "real_of_int (binade ?x) < real_of_int (52 + k) + 1"
    using powr_less_cancel_iff [of 2 "real_of_int (binade ?x)" "real_of_int (52 + k) + 1"]
    by simp
  then have bk: "binade ?x \<le> 52 + k" by linarith
  define j where "j = k - (max (binade ?x) (- 1022) - 52)"
  define U where "U = ulp ?x"
  have j: "0 \<le> j" using bk assms(3) by (simp add: j_def)
  have U: "U = 2 powr real_of_int (k - j)" by (simp add: U_def ulp_def j_def)
  have Upos: "0 < U" by (simp add: U_def)
  have a: "2 powr real_of_int k = 2 powr real_of_int j * 2 powr real_of_int (k - j)"
    using powr_add [of 2 "real_of_int j" "real_of_int (k - j)"] by simp
  have b: "2 powr real_of_int j = 2 ^ nat j"
    using j powr_realpow [of 2 "nat j"] by simp
  have kj: "2 powr real_of_int k = 2 ^ nat j * U"
    using a b U by (simp only:)
  have rd: "round_double ?x = real_of_int (round_half_even (?x / U)) * U"
    using x assms(1) by (simp add: round_double_def U_def)
  have q: "?x / U = real_of_int (m * 2 ^ nat j)"
    using Upos by (simp add: kj)
  have "round_double ?x = real_of_int (m * 2 ^ nat j) * U"
    by (simp only: rd q round_half_even_of_int)
  also have "\<dots> = real_of_int m * (2 ^ nat j * U)" by simp
  also have "\<dots> = ?x" by (simp only: kj)
  finally show ?thesis .
qed

lemma round_double_nat:
  assumes "n \<le> 2 ^ 53"
  shows "round_double (real n) = real n"
proof (cases "n = 0 \<or> n = 2 ^ 53")
  case True
  then show ?thesis
  proof
    assume "n = 0" then show ?thesis by (simp add: round_double_def)
  next
    assume n: "n = 2 ^ 53"
    from round_double_exact [of "2 ^ 52" 1] show ?thesis by (simp add: n)
  qed
next
  case False
  with assms have "0 < int n" "int n < 2 ^ 53" by simp_all
  from round_double_exact [OF this, of 0] show ?thesis by simp
qed

lemma round_double_eval:
  assumes "0 < x" "2 powr real_of_int e \<le> x" "x < 2 powr (real_of_int e + 1)" "- 1022 \<le> e"
  shows "round_double x
           = real_of_int (round_half_even (x / 2 powr real_of_int (e - 52)))
             * 2 powr real_of_int (e - 52)"
proof -
  from assms(1-3) have "binade x = e" by (rule binade_eq)
  with assms(1,4) show ?thesis by (simp add: round_double_def ulp_def max_def)
qed


lemma round_double_0 [simp]: "round_double 0 = 0"
  by (simp add: round_double_def)

lemma round_double_half:
  assumes "0 < m" "m < 2 ^ 53"
  shows "round_double (real_of_int m / 2) = real_of_int m / 2"
  using round_double_exact [OF assms, of "- 1"] by (simp add: powr_neg_numeral)

lemma double_of_u64_0 [simp]: "double_of_u64 0 = 0"
  by (simp add: double_of_u64_def)

lemma double_of_u64_exact: "unat w \<le> 2 ^ 53 \<Longrightarrow> double_of_u64 w = real (unat w)"
  by (simp add: double_of_u64_def round_double_nat del: of_nat_unat)

lemma double_of_u64_nonneg [simp]: "0 \<le> double_of_u64 w"
  by (simp add: double_of_u64_def round_double_nonneg del: of_nat_unat)

lemma double_of_u64_mono: "a \<le> b \<Longrightarrow> double_of_u64 a \<le> double_of_u64 b"
  unfolding double_of_u64_def
  by (intro round_double_mono) (simp_all add: word_le_nat_alt del: of_nat_unat)

lemma double_of_u64_pos:
  assumes "w \<noteq> 0"
  shows "1 \<le> double_of_u64 w"
proof -
  from assms have "1 \<le> unat w" by (simp add: unat_gt_0 Suc_le_eq)
  then have "real 1 \<le> real (unat w)" by (simp only: of_nat_le_iff)
  then have "round_double (real 1) \<le> round_double (real (unat w))"
    by (intro round_double_mono) simp_all
  then show ?thesis using round_double_nat [of 1] by (simp add: double_of_u64_def del: of_nat_unat)
qed

lemma double_of_int_NANOSEC: "double_of_int NANOSEC_PER_SEC = 1000000000"
  using round_double_nat [of 1000000000] by (simp add: double_of_int_def NANOSEC_PER_SEC_def)

lemma double_div_0 [simp]: "double_div 0 y = 0"
  by (simp add: double_div_def)

lemma double_div_nonneg: "0 \<le> x \<Longrightarrow> 0 < y \<Longrightarrow> 0 \<le> double_div x y"
  by (simp add: double_div_def round_double_nonneg)

lemma double_div_mono: "0 \<le> x \<Longrightarrow> x \<le> x' \<Longrightarrow> 0 < y \<Longrightarrow> double_div x y \<le> double_div x' y"
  unfolding double_div_def by (intro round_double_mono) (simp_all add: divide_right_mono)

lemma rd_1: "round_double 1 = 1"
  using round_double_nat [of 1] by simp

lemma rd_2: "round_double 2 = 2"
  using round_double_nat [of 2] by simp

lemma rd_1_2: "round_double (1 / 2) = 1 / 2"
  using round_double_half [of 1] by simp

lemma rd_5_2: "round_double (5 / 2) = 5 / 2"
  using round_double_half [of 5] by simp

lemma rd_101_2: "round_double (101 / 2) = 101 / 2"
  using round_double_half [of 101] by simp

lemma rd_201_2: "round_double (201 / 2) = 201 / 2"
  using round_double_half [of 201] by simp

lemma rd_11_10: "round_double (11 / 10) = 4953959590107546 / 4503599627370496"
  using round_double_eval [of "11 / 10" 0]
  by (simp add: round_half_even_def powr_neg_numeral)

lemma rd_cex_q:
  "round_double (1100 / (4953959590107546 / 4503599627370496)) = 1000 - 1 / 2 ^ 43"
  using round_double_eval [of "1100 / (4953959590107546 / 4503599627370496)" 9]
  by (simp add: round_half_even_def powr_neg_numeral)

lemma rd_2p53: "round_double (2 ^ 53) = 2 ^ 53"
  using round_double_nat [of "2 ^ 53"] by simp

lemma rd_2p53_1: "round_double (2 ^ 53 + 1) = 2 ^ 53"
  using round_double_eval [of "2 ^ 53 + 1" 53]
  by (simp add: round_half_even_def)

lemma rd_2p63: "round_double (2 ^ 63) = 2 ^ 63"
  using round_double_exact [of "2 ^ 52" 11] by simp

lemma rd_2p64: "round_double (2 ^ 64) = 2 ^ 64"
  using round_double_exact [of "2 ^ 52" 12] by simp

lemma rd_2p64_1: "round_double (2 ^ 64 - 1) = 2 ^ 64"
  using round_double_eval [of "2 ^ 64 - 1" 63]
  by (simp add: round_half_even_def)

lemma rd_2p64_95: "round_double (2 ^ 64 - 95) = 2 ^ 64"
  using round_double_eval [of "2 ^ 64 - 95" 63]
  by (simp add: round_half_even_def)

lemma double_of_u64_2p63: "double_of_u64 (2 ^ 63) = 2 ^ 63"
proof -
  have "real (unat (2 ^ 63 :: u64)) = 2 ^ 63" by simp
  then show ?thesis by (simp only: double_of_u64_def rd_2p63)
qed


section \<open>Facts about the rates\<close>

lemma uint_u64_of_double:
  assumes "0 \<le> x" "x < 2 ^ 64"
  shows "uint (u64_of_double oor x) = \<lfloor>x\<rfloor>"
proof -
  have lo: "0 \<le> \<lfloor>x\<rfloor>" using assms(1) by simp
  have "\<lfloor>x\<rfloor> < 2 ^ 64" using assms(2) by (simp add: floor_less_iff)
  then have "uint (word_of_int \<lfloor>x\<rfloor> :: u64) = \<lfloor>x\<rfloor>"
    using lo by (simp add: uint_word_of_int take_bit_eq_mod)
  then show ?thesis using assms by (simp add: u64_of_double_def)
qed

lemma u64_of_double_mono:
  assumes "0 \<le> x" "x \<le> y" "y < 2 ^ 64"
  shows "u64_of_double oor x \<le> u64_of_double oor y"
proof -
  have "uint (u64_of_double oor x) = \<lfloor>x\<rfloor>" using assms by (intro uint_u64_of_double) auto
  moreover have "uint (u64_of_double oor y) = \<lfloor>y\<rfloor>" using assms by (intro uint_u64_of_double) auto
  moreover have "\<lfloor>x\<rfloor> \<le> \<lfloor>y\<rfloor>" using assms(2) by (rule floor_mono)
  ultimately show ?thesis by (simp add: word_le_def)
qed

lemma calc_period_eq:
  "calc_period r p = double_div (double_of_u64 (timestamp r - timestamp p)) 1000000000"
  by (simp add: calc_period_def Let_def double_of_int_NANOSEC word_greater_zero_iff)

lemma calc_period_nonneg: "0 \<le> calc_period r p"
  unfolding calc_period_eq by (intro double_div_nonneg) simp_all

lemma calc_pps_eq:
  "0 < t \<Longrightarrow> calc_pps oor r p t
     = u64_of_double oor (double_div (double_of_u64 (processed r - processed p)) t)"
  by (simp add: calc_pps_def)

lemma calc_drop_pps_eq:
  "0 < t \<Longrightarrow> calc_drop_pps oor r p t
     = u64_of_double oor (double_div (double_of_u64 (dropped r - dropped p)) t)"
  by (simp add: calc_drop_pps_def)

lemma unat_sub_wrap:
  fixes a b :: u64
  assumes "a < b"
  shows "unat (a - b) = 2 ^ 64 - (unat b - unat a)"
proof -
  have "unat a < unat b" using assms by (simp add: word_less_nat_alt)
  moreover have "unat b < 2 ^ 64" using unsigned_less [of b] by simp
  ultimately show ?thesis by (simp add: unat_sub_if')
qed

lemma calc_pps_lt: "uint (calc_pps oor r p t) < 2 ^ 64"
  using uint_bounded [of "calc_pps oor r p t"] by simp

lemma calc_pps_in_range:
  assumes "0 < t" "double_div (double_of_u64 (processed r - processed p)) t = q"
    "0 \<le> q" "q < 2 ^ 64"
  shows "uint (calc_pps oor r p t) = \<lfloor>q\<rfloor>"
  using uint_u64_of_double [OF assms(3,4), of oor] by (simp only: calc_pps_eq [OF assms(1)] assms(2))

lemma calc_drop_pps_in_range:
  assumes "0 < t" "double_div (double_of_u64 (dropped r - dropped p)) t = q"
    "0 \<le> q" "q < 2 ^ 64"
  shows "uint (calc_drop_pps oor r p t) = \<lfloor>q\<rfloor>"
  using uint_u64_of_double [OF assms(3,4), of oor]
  by (simp only: calc_drop_pps_eq [OF assms(1)] assms(2))

lemma calc_pps_out_of_range:
  assumes "0 < t" "double_div (double_of_u64 (processed r - processed p)) t = q" "2 ^ 64 \<le> q"
  shows "calc_pps oor r p t = oor q"
  using assms(3) by (simp add: calc_pps_eq [OF assms(1)] assms(2) u64_of_double_def)

lemma ex_period_2: "calc_period ex_late ex_early = 2"
  by (simp add: calc_period_eq ex_late_def ex_early_def double_of_u64_exact double_div_def rd_2)

lemma ex_pps_50: "uint (calc_pps oor ex_c ex_d 2) = 50"
proof -
  have "double_div (double_of_u64 (processed ex_c - processed ex_d)) 2 = 101 / 2"
    by (simp add: ex_c_def ex_d_def double_of_u64_exact double_div_def rd_101_2)
  from calc_pps_in_range [OF _ this] show ?thesis by simp
qed

lemma ex_drop_2: "uint (calc_drop_pps oor ex_c ex_d 2) = 2"
proof -
  have "double_div (double_of_u64 (dropped ex_c - dropped ex_d)) 2 = 5 / 2"
    by (simp add: ex_c_def ex_d_def double_of_u64_exact double_div_def rd_5_2)
  from calc_drop_pps_in_range [OF _ this] show ?thesis by simp
qed

lemma cex_period: "calc_period cex_t1 cex_t0 = 4953959590107546 / 4503599627370496"
proof -
  have "double_of_u64 (timestamp cex_t1 - timestamp cex_t0) = 1100000000"
    by (simp add: cex_t1_def cex_t0_def double_of_u64_exact)
  moreover have "(1100000000 :: real) / 1000000000 = 11 / 10" by simp
  ultimately show ?thesis by (simp only: calc_period_eq double_div_def rd_11_10)
qed

lemma cex_pps_999:
  "uint (calc_pps oor cex_1100 cex_p (4953959590107546 / 4503599627370496)) = 999"
proof -
  have "double_of_u64 (processed cex_1100 - processed cex_p) = 1100"
    by (simp add: cex_1100_def cex_p_def double_of_u64_exact)
  then have "double_div (double_of_u64 (processed cex_1100 - processed cex_p))
               (4953959590107546 / 4503599627370496) = 1000 - 1 / 2 ^ 43"
    by (simp only: double_div_def rd_cex_q)
  from calc_pps_in_range [OF _ this] show ?thesis by simp
qed

lemma cex_pps_big: "uint (calc_pps oor cex_big cex_p 1) = 2 ^ 53"
proof -
  have "real (unat (processed cex_big - processed cex_p)) = 2 ^ 53 + 1"
    by (simp add: cex_big_def cex_p_def)
  then have "double_of_u64 (processed cex_big - processed cex_p) = 2 ^ 53"
    by (simp only: double_of_u64_def rd_2p53_1)
  then have "double_div (double_of_u64 (processed cex_big - processed cex_p)) 1 = 2 ^ 53"
    by (simp only: double_div_def div_by_1 rd_2p53)
  from calc_pps_in_range [OF _ this] show ?thesis by simp
qed

lemma ex_reset_q: "double_div (double_of_u64 (processed ex_reset - processed ex_d)) 2 = 2 ^ 63"
proof -
  have "real (unat (processed ex_reset - processed ex_d)) = 2 ^ 64 - 95"
    by (simp add: ex_reset_def ex_d_def)
  then have "double_of_u64 (processed ex_reset - processed ex_d) = 2 ^ 64"
    by (simp only: double_of_u64_def rd_2p64_95)
  moreover have "(2 ^ 64 :: real) / 2 = 2 ^ 63" by simp
  ultimately show ?thesis by (simp only: double_div_def rd_2p63)
qed

lemma ex_reset_q1: "double_div (double_of_u64 (processed ex_reset - processed ex_d)) 1 = 2 ^ 64"
proof -
  have "real (unat (processed ex_reset - processed ex_d)) = 2 ^ 64 - 95"
    by (simp add: ex_reset_def ex_d_def)
  then have "double_of_u64 (processed ex_reset - processed ex_d) = 2 ^ 64"
    by (simp only: double_of_u64_def rd_2p64_95)
  then show ?thesis by (simp only: double_div_def div_by_1 rd_2p64)
qed

lemma cex_max_q: "double_div (double_of_u64 (processed cex_max - processed cex_p)) 1 = 2 ^ 64"
proof -
  have "real (unat (processed cex_max - processed cex_p)) = 2 ^ 64 - 1"
    by (simp add: cex_max_def cex_p_def)
  then have "double_of_u64 (processed cex_max - processed cex_p) = 2 ^ 64"
    by (simp only: double_of_u64_def rd_2p64_1)
  then show ?thesis by (simp only: double_div_def div_by_1 rd_2p64)
qed

lemma cex_wrap_q: "double_div (double_of_u64 (processed cex_p - processed cex_max)) 1 = 1"
proof -
  have "real (unat (processed cex_p - processed cex_max)) = 1"
    by (simp add: cex_max_def cex_p_def)
  then have "double_of_u64 (processed cex_p - processed cex_max) = 1"
    by (simp only: double_of_u64_def rd_1)
  then show ?thesis by (simp only: double_div_def div_by_1 rd_1)
qed

lemma ex_c_q: "double_div (double_of_u64 (processed ex_c - processed cex_p)) 2 = 201 / 2"
  by (simp add: ex_c_def cex_p_def double_of_u64_exact double_div_def rd_201_2)

lemma cex_b_q: "double_div (double_of_u64 (processed cex_b - processed cex_p)) 2 = 1 / 2"
  by (simp add: cex_b_def cex_p_def double_of_u64_exact double_div_def rd_1_2)

lemma cex_b_q1: "double_div (double_of_u64 (processed cex_b - processed cex_p)) 1 = 1"
proof -
  have "real (unat (processed cex_b - processed cex_p)) = 1"
    by (simp add: cex_b_def cex_p_def)
  then have "double_of_u64 (processed cex_b - processed cex_p) = 1"
    by (simp only: double_of_u64_def rd_1)
  then show ?thesis by (simp only: double_div_def div_by_1 rd_1)
qed

lemma word_of_uint_eq: "uint (w :: u64) = k \<Longrightarrow> w = word_of_int k"
  by (metis word_of_int_uint)

lemma ex_pps_word: "calc_pps oor ex_c ex_d 2 = 50"
  using word_of_uint_eq [OF ex_pps_50 [of oor]] by simp

lemma ex_drop_word: "calc_drop_pps oor ex_c ex_d 2 = 2"
  using word_of_uint_eq [OF ex_drop_2 [of oor]] by simp

lemma calc_pps_unit:
  assumes "unat (processed r - processed p) \<le> 2 ^ 53"
  shows "calc_pps oor r p 1 = processed r - processed p"
proof -
  let ?w = "processed r - processed p"
  have "double_of_u64 ?w = real (unat ?w)" using assms by (rule double_of_u64_exact)
  moreover have "round_double (real (unat ?w)) = real (unat ?w)"
    using assms by (rule round_double_nat)
  ultimately have q: "double_div (double_of_u64 ?w) 1 = real (unat ?w)"
    by (simp only: double_div_def div_by_1)
  have "real (unat ?w) \<le> 2 ^ 53" using assms by (simp del: of_nat_unat)
  then have "real (unat ?w) < 2 ^ 64" by simp
  moreover have "0 \<le> real (unat ?w)" by (simp del: of_nat_unat)
  ultimately have "uint (calc_pps oor r p 1) = \<lfloor>real (unat ?w)\<rfloor>"
    using calc_pps_in_range [OF _ q, of oor] by simp
  then have "uint (calc_pps oor r p 1) = uint ?w" by (simp add: uint_nat del: of_nat_unat)
  then show ?thesis by (simp only: word_uint_eq_iff)
qed

lemma calc_period_unit:
  assumes "timestamp r - timestamp p = 1000000000"
  shows "calc_period r p = 1"
proof -
  have "double_of_u64 (1000000000 :: u64) = 1000000000" by (simp add: double_of_u64_exact)
  then show ?thesis by (simp add: calc_period_eq assms double_div_def rd_1)
qed

lemma cex_wrap_pps: "calc_pps oor cex_p cex_max 1 = 1"
  using word_of_uint_eq [OF calc_pps_in_range [OF _ cex_wrap_q, of oor]] by simp

lemma cex_max_pps: "calc_pps oor_zero cex_max cex_p 1 = 0"
  using calc_pps_out_of_range [OF _ cex_max_q, of oor_zero] by (simp add: oor_zero_def)

text \<open>
  C1, as amended. The period is the binary64 quotient of the difference of the two
  timestamps, taken in 64-bit arithmetic and converted to binary64, by \<open>10^9\<close>; it is
  never negative, and 0 when the timestamps are equal. For a period \<open>t > 0\<close>,
  \<^verbatim>\<open>calc_pps\<close> is the floor of the binary64 quotient of the 64-bit difference of the
  processed counters, converted to binary64, by \<open>t\<close>, when that rounded quotient is below
  \<open>2^64\<close>, and \<^verbatim>\<open>calc_drop_pps\<close> is the same on the dropped counters. For a period
  \<open>t \<le> 0\<close> both rates are 0. Where the difference is at most \<open>2^53\<close> and the exact
  quotient is a binary64 number, the period and the rate are the exact quotient and its
  floor.
\<close>

theorem calc_rates:
  "calc_period r p = double_div (double_of_u64 (timestamp r - timestamp p)) 1000000000 \<and>
   0 \<le> calc_period r p \<and>
   (timestamp r0 = timestamp p0 \<longrightarrow> calc_period r0 p0 = 0) \<and>
   (0 < t \<longrightarrow> double_div (double_of_u64 (processed c - processed d)) t < 2 ^ 64 \<longrightarrow>
      uint (calc_pps oor c d t) = \<lfloor>double_div (double_of_u64 (processed c - processed d)) t\<rfloor>) \<and>
   (0 < t \<longrightarrow> double_div (double_of_u64 (dropped c - dropped d)) t < 2 ^ 64 \<longrightarrow>
      uint (calc_drop_pps oor c d t) = \<lfloor>double_div (double_of_u64 (dropped c - dropped d)) t\<rfloor>) \<and>
   (t0 \<le> 0 \<longrightarrow> calc_pps oor c d t0 = 0 \<and> calc_drop_pps oor c d t0 = 0) \<and>
   (unat (timestamp r - timestamp p) \<le> 2 ^ 53 \<longrightarrow>
    round_double (real (unat (timestamp r - timestamp p)) / 1000000000)
      = real (unat (timestamp r - timestamp p)) / 1000000000 \<longrightarrow>
      calc_period r p = real (unat (timestamp r - timestamp p)) / 1000000000) \<and>
   (0 < t \<longrightarrow> unat (processed c - processed d) \<le> 2 ^ 53 \<longrightarrow>
    round_double (real (unat (processed c - processed d)) / t)
      = real (unat (processed c - processed d)) / t \<longrightarrow>
    real (unat (processed c - processed d)) / t < 2 ^ 64 \<longrightarrow>
      uint (calc_pps oor c d t) = \<lfloor>real (unat (processed c - processed d)) / t\<rfloor>)"
proof (intro conjI impI)
  show "calc_period r p = double_div (double_of_u64 (timestamp r - timestamp p)) 1000000000"
    by (rule calc_period_eq)
  show "0 \<le> calc_period r p" by (rule calc_period_nonneg)
  show "calc_period r0 p0 = 0" if "timestamp r0 = timestamp p0"
    using that by (simp add: calc_period_eq)
  show "uint (calc_pps oor c d t) = \<lfloor>double_div (double_of_u64 (processed c - processed d)) t\<rfloor>"
    if "0 < t" "double_div (double_of_u64 (processed c - processed d)) t < 2 ^ 64"
  proof -
    have "0 \<le> double_div (double_of_u64 (processed c - processed d)) t"
      using that(1) by (intro double_div_nonneg) simp_all
    from uint_u64_of_double [OF this that(2)] show ?thesis by (simp only: calc_pps_eq [OF that(1)])
  qed
  show "uint (calc_drop_pps oor c d t) = \<lfloor>double_div (double_of_u64 (dropped c - dropped d)) t\<rfloor>"
    if "0 < t" "double_div (double_of_u64 (dropped c - dropped d)) t < 2 ^ 64"
  proof -
    have "0 \<le> double_div (double_of_u64 (dropped c - dropped d)) t"
      using that(1) by (intro double_div_nonneg) simp_all
    from uint_u64_of_double [OF this that(2)] show ?thesis
      by (simp only: calc_drop_pps_eq [OF that(1)])
  qed
  show "calc_pps oor c d t0 = 0" if "t0 \<le> 0" using that by (simp add: calc_pps_def)
  show "calc_drop_pps oor c d t0 = 0" if "t0 \<le> 0" using that by (simp add: calc_drop_pps_def)
  show "calc_period r p = real (unat (timestamp r - timestamp p)) / 1000000000"
    if "unat (timestamp r - timestamp p) \<le> 2 ^ 53"
      "round_double (real (unat (timestamp r - timestamp p)) / 1000000000)
         = real (unat (timestamp r - timestamp p)) / 1000000000"
    using that by (simp only: calc_period_eq double_of_u64_exact double_div_def)
  show "uint (calc_pps oor c d t) = \<lfloor>real (unat (processed c - processed d)) / t\<rfloor>"
    if "0 < t" "unat (processed c - processed d) \<le> 2 ^ 53"
      "round_double (real (unat (processed c - processed d)) / t)
         = real (unat (processed c - processed d)) / t"
      "real (unat (processed c - processed d)) / t < 2 ^ 64"
  proof -
    have q: "double_div (double_of_u64 (processed c - processed d)) t
               = real (unat (processed c - processed d)) / t"
      using that(2,3) by (simp only: double_of_u64_exact double_div_def)
    have "0 \<le> real (unat (processed c - processed d)) / t"
      using that(1) by (simp del: of_nat_unat)
    from uint_u64_of_double [OF this that(4)] show ?thesis
      by (simp only: calc_pps_eq [OF that(1)] q)
  qed
qed

theorem calc_rates_witness:
  "calc_period ex_late ex_early = 2 \<and>
   uint (calc_pps oor_zero ex_c ex_d 2) = 50 \<and>
   uint (calc_drop_pps oor_zero ex_c ex_d 2) = 2 \<and>
   calc_period ex_late ex_late = 0 \<and>
   calc_pps oor_zero ex_c ex_d 0 = 0 \<and> calc_drop_pps oor_zero ex_c ex_d 0 = 0 \<and>
   unat (timestamp ex_late - timestamp ex_early) \<le> 2 ^ 53 \<and>
   unat (processed ex_c - processed ex_d) \<le> 2 ^ 53 \<and>
   \<lfloor>real (unat (processed ex_c - processed ex_d)) / 2\<rfloor> = 50"
proof -
  note t = calc_rates [of ex_late ex_early ex_late ex_late 2 ex_c ex_d oor_zero 0]
  have h1: "unat (timestamp ex_late - timestamp ex_early) \<le> 2 ^ 53"
    "unat (processed ex_c - processed ex_d) \<le> 2 ^ 53"
    by (simp_all add: ex_late_def ex_early_def ex_c_def ex_d_def)
  have h2: "round_double (real (unat (timestamp ex_late - timestamp ex_early)) / 1000000000)
              = real (unat (timestamp ex_late - timestamp ex_early)) / 1000000000"
    by (simp add: ex_late_def ex_early_def rd_2)
  have h3: "round_double (real (unat (processed ex_c - processed ex_d)) / 2)
              = real (unat (processed ex_c - processed ex_d)) / 2"
    by (simp add: ex_c_def ex_d_def rd_101_2)
  have h4: "real (unat (processed ex_c - processed ex_d)) / 2 < 2 ^ 64"
    by (simp add: ex_c_def ex_d_def)
  from t h1(1) h2 have p: "calc_period ex_late ex_early
      = real (unat (timestamp ex_late - timestamp ex_early)) / 1000000000" by blast
  from t h1(2) h3 h4 have q: "uint (calc_pps oor_zero ex_c ex_d 2)
      = \<lfloor>real (unat (processed ex_c - processed ex_d)) / 2\<rfloor>" by simp
  have f: "\<lfloor>real (unat (processed ex_c - processed ex_d)) / 2\<rfloor> = 50"
    by (simp add: ex_c_def ex_d_def)
  from t have z: "calc_period ex_late ex_late = 0"
    "calc_pps oor_zero ex_c ex_d 0 = 0" "calc_drop_pps oor_zero ex_c ex_d 0 = 0" by simp_all
  have p2: "calc_period ex_late ex_early = 2"
    using p by (simp add: ex_late_def ex_early_def)
  from p2 q f z h1 ex_drop_2 [of oor_zero] show ?thesis by simp
qed

text \<open>
  The exact quotients are not what the code computes. Timestamps \<open>1.1\<close> seconds apart
  have the period \<open>4953959590107546 / 2^52\<close>, the binary64 number next to \<open>11/10\<close> and
  above it, and 1100 packets over that period give the rate 999 where the exact quotient
  is 1000. A difference of \<open>2^53 + 1\<close> over one second gives the rate \<open>2^53\<close>. A
  difference of \<open>2^64 - 1\<close> over one second is rounded to \<open>2^64\<close>, which no \<^verbatim>\<open>__u64\<close>
  equals (\<open>calc_pps_lt\<close>); with conversions that return 0 out of range the rate is 0.
\<close>

theorem calc_rates_counterexample:
  "real (unat (timestamp cex_t1 - timestamp cex_t0)) / 1000000000 = 11 / 10 \<and>
   calc_period cex_t1 cex_t0 = 4953959590107546 / 4503599627370496 \<and>
   \<lfloor>real (unat (processed cex_1100 - processed cex_p)) / (11 / 10)\<rfloor> = 1000 \<and>
   uint (calc_pps oor_zero cex_1100 cex_p (calc_period cex_t1 cex_t0)) = 999 \<and>
   \<lfloor>real (unat (processed cex_big - processed cex_p)) / 1\<rfloor> = 9007199254740993 \<and>
   uint (calc_pps oor_zero cex_big cex_p 1) = 9007199254740992 \<and>
   \<lfloor>real (unat (processed cex_max - processed cex_p)) / 1\<rfloor> = 18446744073709551615 \<and>
   uint (calc_pps oor_zero cex_max cex_p 1) = 0"
proof -
  have "real (unat (timestamp cex_t1 - timestamp cex_t0)) / 1000000000 = 11 / 10"
    by (simp add: cex_t1_def cex_t0_def)
  moreover have "\<lfloor>real (unat (processed cex_1100 - processed cex_p)) / (11 / 10)\<rfloor> = 1000"
    by (simp add: cex_1100_def cex_p_def)
  moreover have "uint (calc_pps oor_zero cex_1100 cex_p (calc_period cex_t1 cex_t0)) = 999"
    by (simp only: cex_period cex_pps_999)
  moreover have "\<lfloor>real (unat (processed cex_big - processed cex_p)) / 1\<rfloor> = 9007199254740993"
    by (simp add: cex_big_def cex_p_def)
  moreover have "uint (calc_pps oor_zero cex_big cex_p 1) = 9007199254740992"
    using cex_pps_big [of oor_zero] by simp
  moreover have "\<lfloor>real (unat (processed cex_max - processed cex_p)) / 1\<rfloor> = 18446744073709551615"
    by (simp add: cex_max_def cex_p_def)
  moreover have "uint (calc_pps oor_zero cex_max cex_p 1) = 0"
    by (simp add: cex_max_pps)
  ultimately show ?thesis using cex_period by blast
qed

text \<open>
  C7, as amended. When the processed counter went down (\<open>processed r < processed p\<close>) and
  the period is positive, the subtraction wraps: the difference is \<open>(r - p) mod 2^64\<close>,
  that is \<open>2^64 - (p - r)\<close>. \<^verbatim>\<open>calc_pps\<close> takes no other path for it: the result is the
  conversion to \<^verbatim>\<open>__u64\<close> of the binary64 quotient of the wrapped difference by the
  period. When that rounded quotient is below \<open>2^64\<close> the rate is its floor, and then it
  is at least the floor of the binary64 quotient of \<open>2^63\<close> by the period if the counter
  fell by at most \<open>2^63\<close>.
\<close>

theorem calc_pps_underflow:
  assumes "processed r < processed p" and "0 < t"
  shows "int (unat (processed r - processed p))
           = (int (unat (processed r)) - int (unat (processed p))) mod 2 ^ 64 \<and>
         unat (processed r - processed p) = 2 ^ 64 - (unat (processed p) - unat (processed r)) \<and>
         calc_pps oor r p t
           = u64_of_double oor (double_div (double_of_u64 (processed r - processed p)) t) \<and>
         (double_div (double_of_u64 (processed r - processed p)) t < 2 ^ 64 \<longrightarrow>
            uint (calc_pps oor r p t)
              = \<lfloor>double_div (double_of_u64 (processed r - processed p)) t\<rfloor>) \<and>
         (double_div (double_of_u64 (processed r - processed p)) t < 2 ^ 64 \<longrightarrow>
          unat (processed p - processed r) \<le> 2 ^ 63 \<longrightarrow>
            \<lfloor>double_div (2 ^ 63) t\<rfloor> \<le> uint (calc_pps oor r p t))"
proof (intro conjI impI)
  let ?q = "double_div (double_of_u64 (processed r - processed p)) t"
  show "int (unat (processed r - processed p))
          = (int (unat (processed r)) - int (unat (processed p))) mod 2 ^ 64"
    by (simp add: uint_word_ariths)
  show w: "unat (processed r - processed p) = 2 ^ 64 - (unat (processed p) - unat (processed r))"
    using assms(1) by (rule unat_sub_wrap)
  show "calc_pps oor r p t = u64_of_double oor ?q" using assms(2) by (rule calc_pps_eq)
  have nn: "0 \<le> ?q" using assms(2) by (intro double_div_nonneg) simp_all
  show fl: "uint (calc_pps oor r p t) = \<lfloor>?q\<rfloor>" if "?q < 2 ^ 64"
    using uint_u64_of_double [OF nn that] by (simp only: calc_pps_eq [OF assms(2)])
  show "\<lfloor>double_div (2 ^ 63) t\<rfloor> \<le> uint (calc_pps oor r p t)"
    if b: "?q < 2 ^ 64" and f: "unat (processed p - processed r) \<le> 2 ^ 63"
  proof -
    have "unat (processed r) < unat (processed p)" using assms(1) by (simp add: word_less_nat_alt)
    then have "unat (processed p - processed r) = unat (processed p) - unat (processed r)"
      by (simp add: unat_sub word_le_nat_alt)
    with f w have "2 ^ 63 \<le> unat (processed r - processed p)" by simp
    moreover have "unat (2 ^ 63 :: u64) = 2 ^ 63" by simp
    ultimately have "(2 ^ 63 :: u64) \<le> processed r - processed p"
      by (simp only: word_le_nat_alt)
    then have "double_of_u64 (2 ^ 63) \<le> double_of_u64 (processed r - processed p)"
      by (rule double_of_u64_mono)
    then have "2 ^ 63 \<le> double_of_u64 (processed r - processed p)"
      by (simp only: double_of_u64_2p63)
    then have "double_div (2 ^ 63) t \<le> ?q" using assms(2) by (intro double_div_mono) simp_all
    then have "\<lfloor>double_div (2 ^ 63) t\<rfloor> \<le> \<lfloor>?q\<rfloor>" by (rule floor_mono)
    then show ?thesis by (simp only: fl [OF b])
  qed
qed

theorem calc_pps_underflow_witness:
  "processed ex_reset < processed ex_d \<and>
   unat (processed ex_reset - processed ex_d) = 18446744073709551521 \<and>
   double_div (double_of_u64 (processed ex_reset - processed ex_d)) 2 = 9223372036854775808 \<and>
   unat (processed ex_d - processed ex_reset) \<le> 2 ^ 63 \<and>
   calc_pps oor_zero ex_reset ex_d 2 = 9223372036854775808"
proof -
  have a: "processed ex_reset < processed ex_d" by (simp add: ex_reset_def ex_d_def)
  have pos: "(0 :: real) < 2" by simp
  note t = calc_pps_underflow [OF a pos, of oor_zero]
  have q: "double_div (double_of_u64 (processed ex_reset - processed ex_d)) 2 = 9223372036854775808"
    using ex_reset_q by simp
  have f: "unat (processed ex_d - processed ex_reset) \<le> 2 ^ 63" by (simp add: ex_reset_def ex_d_def)
  from t have "unat (processed ex_reset - processed ex_d)
      = 2 ^ 64 - (unat (processed ex_d) - unat (processed ex_reset))" by blast
  then have u: "unat (processed ex_reset - processed ex_d) = 18446744073709551521"
    by (simp add: ex_reset_def ex_d_def)
  from t have "double_div (double_of_u64 (processed ex_reset - processed ex_d)) 2 < 2 ^ 64 \<longrightarrow>
      uint (calc_pps oor_zero ex_reset ex_d 2)
        = \<lfloor>double_div (double_of_u64 (processed ex_reset - processed ex_d)) 2\<rfloor>" by blast
  then have "uint (calc_pps oor_zero ex_reset ex_d 2) = 9223372036854775808"
    by (simp add: q)
  then have "calc_pps oor_zero ex_reset ex_d 2 = word_of_int 9223372036854775808"
    by (metis word_of_int_uint)
  then have v: "calc_pps oor_zero ex_reset ex_d 2 = 9223372036854775808" by simp
  from a u q f v show ?thesis by simp
qed

text \<open>
  The rate after a fall of the counter is not always huge. A counter that falls from
  \<open>2^64 - 1\<close> to 0 within a second has the wrapped difference 1 and the rate 1, whatever
  the conversion does out of range. A counter that falls from 100 to 5 within a second
  has the wrapped difference \<open>2^64 - 95\<close>, which binary64 rounds to \<open>2^64\<close>: the
  conversion is out of range, and where it returns 0 there the rate is 0.
\<close>

theorem calc_pps_underflow_counterexample:
  "processed cex_p < processed cex_max \<and>
   calc_pps oor_zero cex_p cex_max 1 = 1 \<and>
   processed ex_reset < processed ex_d \<and>
   double_div (double_of_u64 (processed ex_reset - processed ex_d)) 1 = 18446744073709551616 \<and>
   calc_pps oor_zero ex_reset ex_d 1 = 0"
proof -
  have a: "processed cex_p < processed cex_max" "processed ex_reset < processed ex_d"
    by (simp_all add: cex_p_def cex_max_def ex_reset_def ex_d_def)
  have q: "double_div (double_of_u64 (processed ex_reset - processed ex_d)) 1
             = 18446744073709551616"
    using ex_reset_q1 by simp
  have d: "calc_pps oor_zero ex_reset ex_d 1 = 0"
    using calc_pps_out_of_range [OF _ ex_reset_q1, of oor_zero] by (simp add: oor_zero_def)
  from a cex_wrap_pps [of oor_zero] q d show ?thesis by simp
qed

text \<open>
  C8, as amended. For a period \<open>t > 0\<close> and a fixed previous sample, \<^verbatim>\<open>calc_pps\<close> is
  monotone in the 64-bit difference of the processed counters, provided the binary64
  quotient of the larger difference by \<open>t\<close> is below \<open>2^64\<close>.
\<close>

theorem calc_pps_monotone:
  assumes "0 < t"
    and "processed b - processed p \<le> processed a - processed p"
    and "double_div (double_of_u64 (processed a - processed p)) t < 2 ^ 64"
  shows "calc_pps oor b p t \<le> calc_pps oor a p t"
proof -
  have "double_of_u64 (processed b - processed p) \<le> double_of_u64 (processed a - processed p)"
    using assms(2) by (rule double_of_u64_mono)
  then have "double_div (double_of_u64 (processed b - processed p)) t
               \<le> double_div (double_of_u64 (processed a - processed p)) t"
    using assms(1) by (intro double_div_mono) simp_all
  moreover have "0 \<le> double_div (double_of_u64 (processed b - processed p)) t"
    using assms(1) by (intro double_div_nonneg) simp_all
  ultimately have "u64_of_double oor (double_div (double_of_u64 (processed b - processed p)) t)
      \<le> u64_of_double oor (double_div (double_of_u64 (processed a - processed p)) t)"
    using assms(3) by (intro u64_of_double_mono)
  then show ?thesis by (simp only: calc_pps_eq [OF assms(1)])
qed

theorem calc_pps_monotone_witness:
  "processed cex_b - processed cex_p \<le> processed ex_c - processed cex_p \<and>
   double_div (double_of_u64 (processed ex_c - processed cex_p)) 2 < 2 ^ 64 \<and>
   calc_pps oor_zero cex_b cex_p 2 \<le> calc_pps oor_zero ex_c cex_p 2 \<and>
   uint (calc_pps oor_zero cex_b cex_p 2) = 0 \<and> uint (calc_pps oor_zero ex_c cex_p 2) = 100"
proof -
  have a: "processed cex_b - processed cex_p \<le> processed ex_c - processed cex_p"
    by (simp add: cex_b_def cex_p_def ex_c_def)
  have b: "double_div (double_of_u64 (processed ex_c - processed cex_p)) 2 < 2 ^ 64"
    by (simp add: ex_c_q)
  have c: "calc_pps oor_zero cex_b cex_p 2 \<le> calc_pps oor_zero ex_c cex_p 2"
    using calc_pps_monotone [of 2 cex_b cex_p ex_c oor_zero] a b by simp
  have d: "uint (calc_pps oor_zero cex_b cex_p 2) = 0"
    using calc_pps_in_range [OF _ cex_b_q, of oor_zero] by simp
  have e: "uint (calc_pps oor_zero ex_c cex_p 2) = 100"
    using calc_pps_in_range [OF _ ex_c_q, of oor_zero] by simp
  from a b c d e show ?thesis by simp
qed

text \<open>
  Without the bound monotonicity fails when conversions out of range return 0: over one
  second a difference of \<open>2^64 - 1\<close>, which binary64 rounds to \<open>2^64\<close>, gives the rate 0
  and a difference of 1 gives the rate 1. Neither difference wraps.
\<close>

theorem calc_pps_monotone_counterexample:
  "processed cex_p \<le> processed cex_b \<and> processed cex_p \<le> processed cex_max \<and>
   processed cex_b - processed cex_p \<le> processed cex_max - processed cex_p \<and>
   calc_pps oor_zero cex_max cex_p 1 = 0 \<and>
   calc_pps oor_zero cex_b cex_p 1 = 1 \<and>
   \<not> calc_pps oor_zero cex_b cex_p 1 \<le> calc_pps oor_zero cex_max cex_p 1"
proof -
  have a: "processed cex_p \<le> processed cex_b" "processed cex_p \<le> processed cex_max"
    "processed cex_b - processed cex_p \<le> processed cex_max - processed cex_p"
    by (simp_all add: cex_p_def cex_b_def cex_max_def)
  have b: "calc_pps oor_zero cex_max cex_p 1 = 0"
    using calc_pps_out_of_range [OF _ cex_max_q, of oor_zero] by (simp add: oor_zero_def)
  from calc_pps_in_range [OF _ cex_b_q1, of oor_zero]
  have "uint (calc_pps oor_zero cex_b cex_p 1) = 1" by simp
  then have "calc_pps oor_zero cex_b cex_p 1 = word_of_int 1" by (metis word_of_int_uint)
  then have c: "calc_pps oor_zero cex_b cex_p 1 = 1" by simp
  from a b c show ?thesis by simp
qed


section \<open>Facts about the report\<close>

lemma bind_abort_Inr [simp]: "bind_abort (Inr x) f = f x"
  by (simp add: bind_abort_def)

lemma bind_abort_Inl [simp]: "bind_abort (Inl a) f = Inl a"
  by (simp add: bind_abort_def)

lemma bind_abort_eq_Inr:
  "bind_abort m f = Inr y \<longleftrightarrow> (\<exists>x. m = Inr x \<and> f x = Inr y)"
  by (cases m) simp_all

lemma for_loop_total:
  "(\<And>i. i \<in> set is \<Longrightarrow> body i = Inr (g i)) \<Longrightarrow> for_loop body is = Inr (concat (map g is))"
  by (induction "is") simp_all

lemma for_loop_Inr:
  "for_loop body is = Inr out \<Longrightarrow> i \<in> set is \<Longrightarrow> \<exists>ls. body i = Inr ls"
  by (induction "is" arbitrary: out) (auto simp: bind_abort_eq_Inr)

lemma pps_pos_iff: "double_of_u64 w > 0 \<longleftrightarrow> w \<noteq> 0"
proof
  assume "0 < double_of_u64 w"
  then show "w \<noteq> 0" by auto
next
  assume "w \<noteq> 0"
  from double_of_u64_pos [OF this] show "0 < double_of_u64 w" by simp
qed

lemma rx_cnt_row_eq:
  "rx_cnt_row oor rec prev (calc_period rec prev) i =
     (if i < length (cpu rec) \<and> i < length (cpu prev)
      then Inr (if pps_of oor rec prev i \<noteq> 0
                then [Row ''XDP-RX'' (Cpu i) (double_of_u64 (pps_of oor rec prev i))
                        (Drop_str ''(nan)'') (calc_period rec prev)]
                else [])
      else Inl Undefined)"
  by (simp add: rx_cnt_row_def pps_of_def Let_def pps_pos_iff unat_eq_zero del: of_nat_unat)

lemma enq_row_eq:
  "enq_row oor rec prev (calc_period rec prev) to_cpu i =
     (if i < length (cpu rec) \<and> i < length (cpu prev)
      then Inr (if pps_of oor rec prev i \<noteq> 0
                then [Row ''cpumap-enqueue'' (Cpu_to i to_cpu) (double_of_u64 (pps_of oor rec prev i))
                        (Drop_pps (double_of_u64 (drop_of oor rec prev i))) (calc_period rec prev)]
                else [])
      else Inl Undefined)"
  by (simp add: enq_row_def pps_of_def drop_of_def Let_def pps_pos_iff unat_eq_zero del: of_nat_unat)

lemma drop_row_eq:
  "drop_row oor lbl rec prev (calc_period rec prev) i =
     (if i < length (cpu rec) \<and> i < length (cpu prev)
      then Inr (if pps_of oor rec prev i \<noteq> 0
                then [Row lbl (Cpu i) (double_of_u64 (pps_of oor rec prev i))
                        (Drop_pps (double_of_u64 (drop_of oor rec prev i))) (calc_period rec prev)]
                else [])
      else Inl Undefined)"
  by (simp add: drop_row_def pps_of_def drop_of_def Let_def pps_pos_iff unat_eq_zero del: of_nat_unat)

lemma in_bounds_of_Inr:
  assumes "for_loop body [0..<n] = Inr out"
    and "\<And>i. body i = (if i < a \<and> i < b then Inr (g i) else Inl Undefined)"
  shows "n \<le> a \<and> n \<le> b"
proof (cases n)
  case 0 then show ?thesis by simp
next
  case (Suc m)
  then have "m \<in> set [0..<n]" by simp
  from for_loop_Inr [OF assms(1) this] obtain ls where "body m = Inr ls" ..
  with assms(2) [of m] have "m < a \<and> m < b" by (auto split: if_splits)
  with Suc show ?thesis by simp
qed

lemma print_rx_cnt_wf:
  assumes "n \<le> length (cpu (rx_cnt sr))" "n \<le> length (cpu (rx_cnt sp))"
  shows "print_rx_cnt oor n sr sp = Inr (spec_rx_block oor n (rx_cnt sr) (rx_cnt sp))"
proof -
  let ?rec = "rx_cnt sr" and ?prev = "rx_cnt sp"
  have "for_loop (rx_cnt_row oor ?rec ?prev (calc_period ?rec ?prev)) [0..<n]
          = Inr (concat (map (\<lambda>i. if pps_of oor ?rec ?prev i \<noteq> 0
                then [Row ''XDP-RX'' (Cpu i) (double_of_u64 (pps_of oor ?rec ?prev i))
                        (Drop_str ''(nan)'') (calc_period ?rec ?prev)]
                else []) [0..<n]))"
    using assms by (intro for_loop_total) (simp add: rx_cnt_row_eq)
  then show ?thesis
    by (simp add: print_rx_cnt_def spec_rx_block_def Let_def total_pps_def del: of_nat_unat)
qed

lemma print_rx_cnt_Inr:
  assumes "print_rx_cnt oor n sr sp = Inr out"
  shows "n \<le> length (cpu (rx_cnt sr)) \<and> n \<le> length (cpu (rx_cnt sp)) \<and>
         out = spec_rx_block oor n (rx_cnt sr) (rx_cnt sp)"
proof -
  from assms obtain rows where
    "for_loop (rx_cnt_row oor (rx_cnt sr) (rx_cnt sp) (calc_period (rx_cnt sr) (rx_cnt sp))) [0..<n]
       = Inr rows"
    by (auto simp: print_rx_cnt_def Let_def bind_abort_eq_Inr)
  from in_bounds_of_Inr [OF this rx_cnt_row_eq]
  have b: "n \<le> length (cpu (rx_cnt sr)) \<and> n \<le> length (cpu (rx_cnt sp))" .
  with print_rx_cnt_wf [of n sr sp oor] assms show ?thesis by simp
qed

lemma print_enq_wf:
  assumes "to_cpu < length (enq sr)" "to_cpu < length (enq sp)"
    "n \<le> length (cpu (enq sr ! to_cpu))" "n \<le> length (cpu (enq sp ! to_cpu))"
  shows "print_enq oor n sr sp to_cpu
           = Inr (spec_enq_block oor n (enq sr ! to_cpu) (enq sp ! to_cpu) to_cpu)"
proof -
  let ?rec = "enq sr ! to_cpu" and ?prev = "enq sp ! to_cpu"
  have "for_loop (enq_row oor ?rec ?prev (calc_period ?rec ?prev) to_cpu) [0..<n]
          = Inr (concat (map (\<lambda>i. if pps_of oor ?rec ?prev i \<noteq> 0
                then [Row ''cpumap-enqueue'' (Cpu_to i to_cpu) (double_of_u64 (pps_of oor ?rec ?prev i))
                        (Drop_pps (double_of_u64 (drop_of oor ?rec ?prev i))) (calc_period ?rec ?prev)]
                else []) [0..<n]))"
    using assms by (intro for_loop_total) (simp add: enq_row_eq)
  then show ?thesis
    using assms(1,2)
    by (simp add: print_enq_def spec_enq_block_def Let_def total_pps_def total_drop_def
        pps_pos_iff unat_eq_zero del: of_nat_unat)
qed

lemma print_enq_Inr:
  assumes "print_enq oor n sr sp to_cpu = Inr out"
  shows "to_cpu < length (enq sr) \<and> to_cpu < length (enq sp) \<and>
         n \<le> length (cpu (enq sr ! to_cpu)) \<and> n \<le> length (cpu (enq sp ! to_cpu)) \<and>
         out = spec_enq_block oor n (enq sr ! to_cpu) (enq sp ! to_cpu) to_cpu"
proof -
  from assms have b: "to_cpu < length (enq sr)" "to_cpu < length (enq sp)"
    by (auto simp: print_enq_def split: if_splits)
  with assms obtain rows where
    "for_loop (enq_row oor (enq sr ! to_cpu) (enq sp ! to_cpu)
        (calc_period (enq sr ! to_cpu) (enq sp ! to_cpu)) to_cpu) [0..<n] = Inr rows"
    by (auto simp: print_enq_def Let_def bind_abort_eq_Inr)
  from in_bounds_of_Inr [OF this enq_row_eq]
  have "n \<le> length (cpu (enq sr ! to_cpu)) \<and> n \<le> length (cpu (enq sp ! to_cpu))" .
  with print_enq_wf [of to_cpu sr sp n oor] assms b show ?thesis by simp
qed

lemma print_drop_block_wf:
  assumes "n \<le> length (cpu rec)" "n \<le> length (cpu prev)"
  shows "print_drop_block oor n lbl rec prev = Inr (spec_drop_block oor n lbl rec prev)"
proof -
  have "for_loop (drop_row oor lbl rec prev (calc_period rec prev)) [0..<n]
          = Inr (concat (map (\<lambda>i. if pps_of oor rec prev i \<noteq> 0
                then [Row lbl (Cpu i) (double_of_u64 (pps_of oor rec prev i))
                        (Drop_pps (double_of_u64 (drop_of oor rec prev i))) (calc_period rec prev)]
                else []) [0..<n]))"
    using assms by (intro for_loop_total) (simp add: drop_row_eq)
  then show ?thesis
    by (simp add: print_drop_block_def spec_drop_block_def Let_def total_pps_def total_drop_def
        del: of_nat_unat)
qed

lemma print_drop_block_Inr:
  assumes "print_drop_block oor n lbl rec prev = Inr out"
  shows "n \<le> length (cpu rec) \<and> n \<le> length (cpu prev) \<and>
         out = spec_drop_block oor n lbl rec prev"
proof -
  from assms obtain rows where
    "for_loop (drop_row oor lbl rec prev (calc_period rec prev)) [0..<n] = Inr rows"
    by (auto simp: print_drop_block_def Let_def bind_abort_eq_Inr)
  from in_bounds_of_Inr [OF this drop_row_eq]
  have "n \<le> length (cpu rec) \<and> n \<le> length (cpu prev)" .
  with print_drop_block_wf [of n rec prev oor lbl] assms show ?thesis by simp
qed

lemma wf_stats_enq:
  "wf_stats n s \<Longrightarrow> i < MAX_CPUS \<Longrightarrow> i < length (enq s) \<and> length (cpu (enq s ! i)) = n"
  by (simp add: wf_stats_def list_all_length wf_record_def)

lemma stats_print_wf:
  assumes "wf_stats n sr" "wf_stats n sp"
  shows "stats_print oor n sr sp = Inr (spec_render oor n sr sp)"
proof -
  have rx: "print_rx_cnt oor n sr sp = Inr (spec_rx_block oor n (rx_cnt sr) (rx_cnt sp))"
    using assms by (intro print_rx_cnt_wf) (simp_all add: wf_stats_def wf_record_def)
  have enqs: "for_loop (print_enq oor n sr sp) [0..<MAX_CPUS]
      = Inr (concat (map (\<lambda>to_cpu. spec_enq_block oor n (enq sr ! to_cpu) (enq sp ! to_cpu) to_cpu)
               [0..<MAX_CPUS]))"
  proof (rule for_loop_total)
    fix i assume "i \<in> set [0..<MAX_CPUS]"
    then have "i < MAX_CPUS" by simp
    from wf_stats_enq [OF assms(1) this] wf_stats_enq [OF assms(2) this]
    show "print_enq oor n sr sp i = Inr (spec_enq_block oor n (enq sr ! i) (enq sp ! i) i)"
      by (intro print_enq_wf) simp_all
  qed
  have kt: "print_kthread oor n sr sp
              = Inr (spec_drop_block oor n ''cpumap_kthread'' (kthread sr) (kthread sp))"
    unfolding print_kthread_def
    using assms by (intro print_drop_block_wf) (simp_all add: wf_stats_def wf_record_def)
  have re: "print_redir_err oor n sr sp
              = Inr (spec_drop_block oor n ''redirect_err'' (redir_err sr) (redir_err sp))"
    unfolding print_redir_err_def
    using assms by (intro print_drop_block_wf) (simp_all add: wf_stats_def wf_record_def)
  show ?thesis
    by (simp only: stats_print_def rx enqs kt re bind_abort_Inr spec_render_def)
qed

lemma calc_pps_same: "calc_pps oor d d t = 0"
  by (simp add: calc_pps_def u64_of_double_def)

lemma calc_drop_pps_same: "calc_drop_pps oor d d t = 0"
  by (simp add: calc_drop_pps_def u64_of_double_def)

lemma same_counters_record_zero:
  assumes "same_counters_record r p"
  shows "pps_of oor r p i = 0" "drop_of oor r p i = 0" "total_pps oor r p = 0" "total_drop oor r p = 0"
  using assms
  by (simp_all add: same_counters_record_def pps_of_def drop_of_def total_pps_def total_drop_def
      calc_pps_same calc_drop_pps_same)

lemma spec_blocks_same:
  assumes "same_counters_record r p"
  shows "spec_rx_block oor n r p = [Row ''XDP-RX'' Total 0 (Drop_str ''(nan)'') (calc_period r p)]"
    and "spec_enq_block oor n r p to_cpu = []"
    and "spec_drop_block oor n lbl r p = [Row lbl Total 0 (Drop_pps 0) (calc_period r p)]"
  by (simp_all add: spec_rx_block_def spec_enq_block_def spec_drop_block_def
      same_counters_record_zero [OF assms])

lemma spec_render_same:
  assumes "same_counters sr sp" "length (enq sr) = MAX_CPUS"
  shows "spec_render oor n sr sp =
     [Header,
      Row ''XDP-RX'' Total 0 (Drop_str ''(nan)'') (calc_period (rx_cnt sr) (rx_cnt sp)),
      Row ''cpumap_kthread'' Total 0 (Drop_pps 0) (calc_period (kthread sr) (kthread sp)),
      Row ''redirect_err'' Total 0 (Drop_pps 0) (calc_period (redir_err sr) (redir_err sp)),
      Blank]"
proof -
  have e: "spec_enq_block oor n (enq sr ! i) (enq sp ! i) i = []" if "i \<in> set [0..<MAX_CPUS]" for i
  proof -
    from that assms(2) have "i < length (enq sr)" by simp
    with assms(1) have "same_counters_record (enq sr ! i) (enq sp ! i)"
      by (simp add: same_counters_def list_all2_nthD)
    then show ?thesis by (rule spec_blocks_same)
  qed
  have "concat (map (\<lambda>to_cpu. spec_enq_block oor n (enq sr ! to_cpu) (enq sp ! to_cpu) to_cpu)
          [0..<MAX_CPUS]) = concat (map (\<lambda>to_cpu. []) [0..<MAX_CPUS])"
    using e by (intro arg_cong [where f = concat] map_cong) simp_all
  then show ?thesis
    using assms(1) by (simp add: spec_render_def same_counters_def spec_blocks_same)
qed

text \<open>
  C3. For two snapshots of the shape \<^verbatim>\<open>alloc_stats_record\<close> gives, \<^verbatim>\<open>stats_print\<close> prints
  the header, the RX block, the enqueue blocks of the targets \<open>0, \<dots>, MAX_CPUS - 1\<close> in
  this order, the kthread block, the error block and an empty line, each block as
  \<open>spec_render\<close> words it: a row for a CPU exactly when its rate is not zero, the total
  rows of the RX, kthread and error blocks always, the total row of an enqueue block when
  its rate is not zero. When no counter differs between the two snapshots, only the
  header, the three unconditional total rows, each with the rate 0, and the empty line
  are printed.
\<close>

theorem stats_print_blocks:
  assumes "wf_stats n stats_rec" and "wf_stats n stats_prev"
  shows "stats_print oor n stats_rec stats_prev = Inr (spec_render oor n stats_rec stats_prev) \<and>
         (same_counters stats_rec stats_prev \<longrightarrow>
            stats_print oor n stats_rec stats_prev =
              Inr [Header,
                   Row ''XDP-RX'' Total 0 (Drop_str ''(nan)'')
                     (calc_period (rx_cnt stats_rec) (rx_cnt stats_prev)),
                   Row ''cpumap_kthread'' Total 0 (Drop_pps 0)
                     (calc_period (kthread stats_rec) (kthread stats_prev)),
                   Row ''redirect_err'' Total 0 (Drop_pps 0)
                     (calc_period (redir_err stats_rec) (redir_err stats_prev)),
                   Blank])"
proof -
  have p: "stats_print oor n stats_rec stats_prev = Inr (spec_render oor n stats_rec stats_prev)"
    using assms by (rule stats_print_wf)
  have l: "length (enq stats_rec) = MAX_CPUS" using assms(1) by (simp add: wf_stats_def)
  show ?thesis
    using p spec_render_same [OF _ l, of stats_prev oor n] by simp
qed

lemma wf_ex_stats: "wf_stats 1 ex_stats"
  by (simp add: wf_stats_def wf_record_def ex_stats_def ex_late_def MAX_CPUS_def list_all_iff)

lemma same_ex_stats: "same_counters ex_stats ex_stats"
  by (simp add: same_counters_def same_counters_record_def list_all2_same)

theorem stats_print_blocks_witness:
  "wf_stats 1 ex_stats \<and> same_counters ex_stats ex_stats \<and>
   stats_print oor_zero 1 ex_stats ex_stats =
     Inr [Header,
          Row ''XDP-RX'' Total 0 (Drop_str ''(nan)'') 0,
          Row ''cpumap_kthread'' Total 0 (Drop_pps 0) 0,
          Row ''redirect_err'' Total 0 (Drop_pps 0) 0,
          Blank]"
proof -
  from stats_print_blocks [OF wf_ex_stats wf_ex_stats, of oor_zero] same_ex_stats
  have "stats_print oor_zero 1 ex_stats ex_stats =
     Inr [Header,
          Row ''XDP-RX'' Total 0 (Drop_str ''(nan)'') (calc_period (rx_cnt ex_stats) (rx_cnt ex_stats)),
          Row ''cpumap_kthread'' Total 0 (Drop_pps 0)
            (calc_period (kthread ex_stats) (kthread ex_stats)),
          Row ''redirect_err'' Total 0 (Drop_pps 0)
            (calc_period (redir_err ex_stats) (redir_err ex_stats)),
          Blank]"
    by blast
  then show ?thesis
    using wf_ex_stats same_ex_stats by (simp add: calc_period_def)
qed

lemmas ex_simps = ex_stats_def ex_stats_early_def ex_late_def ex_early_def ex_c_def ex_d_def
  ex_period_2 [unfolded ex_late_def ex_early_def ex_c_def ex_d_def]
  ex_pps_word [unfolded ex_c_def ex_d_def] ex_drop_word [unfolded ex_c_def ex_d_def]
  double_of_u64_exact Let_def

lemma ex_print_rx_cnt:
  "print_rx_cnt oor_zero 1 ex_stats ex_stats_early =
     Inr [Row ''XDP-RX'' (Cpu 0) 50 (Drop_str ''(nan)'') 2,
          Row ''XDP-RX'' Total 50 (Drop_str ''(nan)'') 2]"
  by (simp add: print_rx_cnt_def rx_cnt_row_def ex_simps)

lemma ex_print_enq:
  "print_enq oor_zero 1 ex_stats ex_stats_early 5 =
     Inr [Row ''cpumap-enqueue'' (Cpu_to 0 5) 50 (Drop_pps 2) 2,
          Row ''cpumap-enqueue'' (Sum_to 5) 50 (Drop_pps 2) 2]"
  by (simp add: print_enq_def enq_row_def ex_simps)

lemma ex_print_kthread:
  "print_kthread oor_zero 1 ex_stats ex_stats_early =
     Inr [Row ''cpumap_kthread'' (Cpu 0) 50 (Drop_pps 2) 2,
          Row ''cpumap_kthread'' Total 50 (Drop_pps 2) 2]"
  by (simp add: print_kthread_def print_drop_block_def drop_row_def ex_simps)

lemma ex_print_redir_err:
  "print_redir_err oor_zero 1 ex_stats ex_stats_early =
     Inr [Row ''redirect_err'' (Cpu 0) 50 (Drop_pps 2) 2,
          Row ''redirect_err'' Total 50 (Drop_pps 2) 2]"
  by (simp add: print_redir_err_def print_drop_block_def drop_row_def ex_simps)

lemma set_spec_rx_block:
  "l \<in> set (spec_rx_block oor n rec prev) \<Longrightarrow>
     \<exists>c x. l = Row ''XDP-RX'' c x (Drop_str ''(nan)'') (calc_period rec prev)"
  by (auto simp: spec_rx_block_def split: if_splits)

lemma set_spec_enq_block:
  "l \<in> set (spec_enq_block oor n rec prev to_cpu) \<Longrightarrow>
     (\<exists>i<n. l = Row ''cpumap-enqueue'' (Cpu_to i to_cpu) (double_of_u64 (pps_of oor rec prev i))
                 (Drop_pps (double_of_u64 (drop_of oor rec prev i))) (calc_period rec prev)) \<or>
     l = Row ''cpumap-enqueue'' (Sum_to to_cpu) (double_of_u64 (total_pps oor rec prev))
           (Drop_pps (double_of_u64 (total_drop oor rec prev))) (calc_period rec prev)"
  by (auto simp: spec_enq_block_def split: if_splits)

lemma set_spec_drop_block:
  "l \<in> set (spec_drop_block oor n lbl rec prev) \<Longrightarrow>
     (\<exists>i<n. l = Row lbl (Cpu i) (double_of_u64 (pps_of oor rec prev i))
                 (Drop_pps (double_of_u64 (drop_of oor rec prev i))) (calc_period rec prev)) \<or>
     l = Row lbl Total (double_of_u64 (total_pps oor rec prev))
           (Drop_pps (double_of_u64 (total_drop oor rec prev))) (calc_period rec prev)"
  by (auto simp: spec_drop_block_def split: if_splits)

text \<open>
  C10. Every row of the RX block, the per-CPU rows and the total row, which is always
  there, carries the string \<^verbatim>\<open>(nan)\<close> in the drop column. Every row of an enqueue block,
  of the kthread block and of the error block carries there the value \<^verbatim>\<open>calc_drop_pps\<close>
  computes for that row.
\<close>

theorem rx_block_drop_column:
  "(print_rx_cnt oor n stats_rec stats_prev = Inr out \<longrightarrow>
      (\<forall>l \<in> set out. \<exists>c x t. l = Row ''XDP-RX'' c x (Drop_str ''(nan)'') t) \<and>
      Row ''XDP-RX'' Total (double_of_u64 (total_pps oor (rx_cnt stats_rec) (rx_cnt stats_prev)))
        (Drop_str ''(nan)'') (calc_period (rx_cnt stats_rec) (rx_cnt stats_prev)) \<in> set out) \<and>
   (print_enq oor n stats_rec stats_prev to_cpu = Inr out_enq \<longrightarrow>
      (\<forall>l \<in> set out_enq. \<exists>c w. l = Row ''cpumap-enqueue'' c (pps l) (Drop_pps (double_of_u64 w)) (period l) \<and>
         (w = total_drop oor (enq stats_rec ! to_cpu) (enq stats_prev ! to_cpu) \<or>
          (\<exists>i<n. w = drop_of oor (enq stats_rec ! to_cpu) (enq stats_prev ! to_cpu) i)))) \<and>
   (print_kthread oor n stats_rec stats_prev = Inr out_kthread \<longrightarrow>
      (\<forall>l \<in> set out_kthread. \<exists>c w. l = Row ''cpumap_kthread'' c (pps l) (Drop_pps (double_of_u64 w)) (period l) \<and>
         (w = total_drop oor (kthread stats_rec) (kthread stats_prev) \<or>
          (\<exists>i<n. w = drop_of oor (kthread stats_rec) (kthread stats_prev) i)))) \<and>
   (print_redir_err oor n stats_rec stats_prev = Inr out_err \<longrightarrow>
      (\<forall>l \<in> set out_err. \<exists>c w. l = Row ''redirect_err'' c (pps l) (Drop_pps (double_of_u64 w)) (period l) \<and>
         (w = total_drop oor (redir_err stats_rec) (redir_err stats_prev) \<or>
          (\<exists>i<n. w = drop_of oor (redir_err stats_rec) (redir_err stats_prev) i))))"
proof (intro conjI impI)
  assume "print_rx_cnt oor n stats_rec stats_prev = Inr out"
  then have o: "out = spec_rx_block oor n (rx_cnt stats_rec) (rx_cnt stats_prev)"
    by (simp add: print_rx_cnt_Inr)
  show "\<forall>l \<in> set out. \<exists>c x t. l = Row ''XDP-RX'' c x (Drop_str ''(nan)'') t"
    unfolding o using set_spec_rx_block by blast
  show "Row ''XDP-RX'' Total (double_of_u64 (total_pps oor (rx_cnt stats_rec) (rx_cnt stats_prev)))
        (Drop_str ''(nan)'') (calc_period (rx_cnt stats_rec) (rx_cnt stats_prev)) \<in> set out"
    unfolding o by (simp add: spec_rx_block_def del: of_nat_unat)
next
  assume "print_enq oor n stats_rec stats_prev to_cpu = Inr out_enq"
  then have o: "out_enq = spec_enq_block oor n (enq stats_rec ! to_cpu) (enq stats_prev ! to_cpu) to_cpu"
    by (simp add: print_enq_Inr)
  show "\<forall>l \<in> set out_enq. \<exists>c w. l = Row ''cpumap-enqueue'' c (pps l) (Drop_pps (double_of_u64 w)) (period l) \<and>
         (w = total_drop oor (enq stats_rec ! to_cpu) (enq stats_prev ! to_cpu) \<or>
          (\<exists>i<n. w = drop_of oor (enq stats_rec ! to_cpu) (enq stats_prev ! to_cpu) i))"
  proof
    fix l assume "l \<in> set out_enq"
    from set_spec_enq_block [OF this [unfolded o]] show "\<exists>c w. l = Row ''cpumap-enqueue'' c (pps l) (Drop_pps (double_of_u64 w)) (period l) \<and>
         (w = total_drop oor (enq stats_rec ! to_cpu) (enq stats_prev ! to_cpu) \<or>
          (\<exists>i<n. w = drop_of oor (enq stats_rec ! to_cpu) (enq stats_prev ! to_cpu) i))"
      by (elim disjE exE conjE) (simp, blast)+
  qed
next
  assume "print_kthread oor n stats_rec stats_prev = Inr out_kthread"
  then have o: "out_kthread = spec_drop_block oor n ''cpumap_kthread'' (kthread stats_rec) (kthread stats_prev)"
    by (simp add: print_kthread_def print_drop_block_Inr)
  show "\<forall>l \<in> set out_kthread. \<exists>c w. l = Row ''cpumap_kthread'' c (pps l) (Drop_pps (double_of_u64 w)) (period l) \<and>
         (w = total_drop oor (kthread stats_rec) (kthread stats_prev) \<or>
          (\<exists>i<n. w = drop_of oor (kthread stats_rec) (kthread stats_prev) i))"
  proof
    fix l assume "l \<in> set out_kthread"
    from set_spec_drop_block [OF this [unfolded o]] show "\<exists>c w. l = Row ''cpumap_kthread'' c (pps l) (Drop_pps (double_of_u64 w)) (period l) \<and>
         (w = total_drop oor (kthread stats_rec) (kthread stats_prev) \<or>
          (\<exists>i<n. w = drop_of oor (kthread stats_rec) (kthread stats_prev) i))"
      by (elim disjE exE conjE) (simp, blast)+
  qed
next
  assume "print_redir_err oor n stats_rec stats_prev = Inr out_err"
  then have o: "out_err = spec_drop_block oor n ''redirect_err'' (redir_err stats_rec) (redir_err stats_prev)"
    by (simp add: print_redir_err_def print_drop_block_Inr)
  show "\<forall>l \<in> set out_err. \<exists>c w. l = Row ''redirect_err'' c (pps l) (Drop_pps (double_of_u64 w)) (period l) \<and>
         (w = total_drop oor (redir_err stats_rec) (redir_err stats_prev) \<or>
          (\<exists>i<n. w = drop_of oor (redir_err stats_rec) (redir_err stats_prev) i))"
  proof
    fix l assume "l \<in> set out_err"
    from set_spec_drop_block [OF this [unfolded o]] show "\<exists>c w. l = Row ''redirect_err'' c (pps l) (Drop_pps (double_of_u64 w)) (period l) \<and>
         (w = total_drop oor (redir_err stats_rec) (redir_err stats_prev) \<or>
          (\<exists>i<n. w = drop_of oor (redir_err stats_rec) (redir_err stats_prev) i))"
      by (elim disjE exE conjE) (simp, blast)+
  qed
qed


theorem rx_block_drop_column_witness:
  "print_rx_cnt oor_zero 1 ex_stats ex_stats_early =
     Inr [Row ''XDP-RX'' (Cpu 0) 50 (Drop_str ''(nan)'') 2,
          Row ''XDP-RX'' Total 50 (Drop_str ''(nan)'') 2] \<and>
   print_enq oor_zero 1 ex_stats ex_stats_early 5 =
     Inr [Row ''cpumap-enqueue'' (Cpu_to 0 5) 50 (Drop_pps 2) 2,
          Row ''cpumap-enqueue'' (Sum_to 5) 50 (Drop_pps 2) 2] \<and>
   print_kthread oor_zero 1 ex_stats ex_stats_early =
     Inr [Row ''cpumap_kthread'' (Cpu 0) 50 (Drop_pps 2) 2,
          Row ''cpumap_kthread'' Total 50 (Drop_pps 2) 2] \<and>
   print_redir_err oor_zero 1 ex_stats ex_stats_early =
     Inr [Row ''redirect_err'' (Cpu 0) 50 (Drop_pps 2) 2,
          Row ''redirect_err'' Total 50 (Drop_pps 2) 2] \<and>
   total_pps oor_zero (rx_cnt ex_stats) (rx_cnt ex_stats_early) = 50 \<and>
   total_drop oor_zero (kthread ex_stats) (kthread ex_stats_early) = 2"
  using rx_block_drop_column [of oor_zero 1 ex_stats ex_stats_early
      "[Row ''XDP-RX'' (Cpu 0) 50 (Drop_str ''(nan)'') 2,
        Row ''XDP-RX'' Total 50 (Drop_str ''(nan)'') 2]" 5
      "[Row ''cpumap-enqueue'' (Cpu_to 0 5) 50 (Drop_pps 2) 2,
        Row ''cpumap-enqueue'' (Sum_to 5) 50 (Drop_pps 2) 2]"
      "[Row ''cpumap_kthread'' (Cpu 0) 50 (Drop_pps 2) 2,
        Row ''cpumap_kthread'' Total 50 (Drop_pps 2) 2]"
      "[Row ''redirect_err'' (Cpu 0) 50 (Drop_pps 2) 2,
        Row ''redirect_err'' Total 50 (Drop_pps 2) 2]"]
    ex_print_rx_cnt ex_print_enq ex_print_kthread ex_print_redir_err
  by (simp add: total_pps_def total_drop_def ex_simps)

lemma upt_4: "[0..<4] = [0, 1, 2, 3]"
  by (simp add: upt_rec)

text \<open>
  C9. Scenario 1: four CPUs, the previous RX record stamped 0 with the processed counters
  100, 0, 0, 0, the current one stamped \<open>10^9\<close> ns with 200, 50, 0, 0, each total being the
  sum of its per-CPU counters. Then the period is 1 s, the per-CPU rates are 100, 50, 0, 0,
  the total rate is 150, and the RX block consists of the rows of the CPUs 0 and 1 and the
  total row.
\<close>

theorem scenario_1:
  assumes "timestamp (rx_cnt stats_prev) = 0" and "timestamp (rx_cnt stats_rec) = 1000000000"
    and "map processed (cpu (rx_cnt stats_prev)) = [100, 0, 0, 0]"
    and "map processed (cpu (rx_cnt stats_rec)) = [200, 50, 0, 0]"
    and "processed (total (rx_cnt stats_prev)) = sum_list (map processed (cpu (rx_cnt stats_prev)))"
    and "processed (total (rx_cnt stats_rec)) = sum_list (map processed (cpu (rx_cnt stats_rec)))"
  shows "calc_period (rx_cnt stats_rec) (rx_cnt stats_prev) = 1 \<and>
         map (\<lambda>i. calc_pps oor (cpu (rx_cnt stats_rec) ! i) (cpu (rx_cnt stats_prev) ! i) 1) [0..<4]
           = [100, 50, 0, 0] \<and>
         calc_pps oor (total (rx_cnt stats_rec)) (total (rx_cnt stats_prev)) 1 = 150 \<and>
         print_rx_cnt oor 4 stats_rec stats_prev =
           Inr [Row ''XDP-RX'' (Cpu 0) 100 (Drop_str ''(nan)'') 1,
                Row ''XDP-RX'' (Cpu 1) 50 (Drop_str ''(nan)'') 1,
                Row ''XDP-RX'' Total 150 (Drop_str ''(nan)'') 1]"
proof -
  from assms(3) obtain p0 p1 p2 p3 where
    p: "cpu (rx_cnt stats_prev) = [p0, p1, p2, p3]"
       "processed p0 = 100" "processed p1 = 0" "processed p2 = 0" "processed p3 = 0"
    by (auto simp: map_eq_Cons_conv)
  from assms(4) obtain c0 c1 c2 c3 where
    c: "cpu (rx_cnt stats_rec) = [c0, c1, c2, c3]"
       "processed c0 = 200" "processed c1 = 50" "processed c2 = 0" "processed c3 = 0"
    by (auto simp: map_eq_Cons_conv)
  have t: "calc_period (rx_cnt stats_rec) (rx_cnt stats_prev) = 1"
    using assms(1,2) by (simp add: calc_period_unit)
  have tp: "processed (total (rx_cnt stats_prev)) = 100" "processed (total (rx_cnt stats_rec)) = 250"
    using assms(5,6) p c by simp_all
  have pps: "calc_pps oor c0 p0 1 = 100" "calc_pps oor c1 p1 1 = 50"
    "calc_pps oor c2 p2 1 = 0" "calc_pps oor c3 p3 1 = 0"
    "calc_pps oor (total (rx_cnt stats_rec)) (total (rx_cnt stats_prev)) 1 = 150"
    using p c tp by (simp_all add: calc_pps_unit)
  have m: "map (\<lambda>i. calc_pps oor (cpu (rx_cnt stats_rec) ! i) (cpu (rx_cnt stats_prev) ! i) 1) [0..<4]
             = [100, 50, 0, 0]"
    using p(1) c(1) pps by (simp add: upt_4)
  have r: "print_rx_cnt oor 4 stats_rec stats_prev =
           Inr [Row ''XDP-RX'' (Cpu 0) 100 (Drop_str ''(nan)'') 1,
                Row ''XDP-RX'' (Cpu 1) 50 (Drop_str ''(nan)'') 1,
                Row ''XDP-RX'' Total 150 (Drop_str ''(nan)'') 1]"
    using p(1) c(1) pps t
    by (simp add: print_rx_cnt_def rx_cnt_row_def upt_4 Let_def double_of_u64_exact)
  from t m pps(5) r show ?thesis by blast
qed

theorem scenario_1_witness:
  "timestamp (rx_cnt scenario_prev) = 0 \<and> timestamp (rx_cnt scenario_curr) = 1000000000 \<and>
   map processed (cpu (rx_cnt scenario_prev)) = [100, 0, 0, 0] \<and>
   map processed (cpu (rx_cnt scenario_curr)) = [200, 50, 0, 0] \<and>
   processed (total (rx_cnt scenario_prev)) = sum_list (map processed (cpu (rx_cnt scenario_prev))) \<and>
   processed (total (rx_cnt scenario_curr)) = sum_list (map processed (cpu (rx_cnt scenario_curr))) \<and>
   calc_period (rx_cnt scenario_curr) (rx_cnt scenario_prev) = 1 \<and>
   print_rx_cnt oor_zero 4 scenario_curr scenario_prev =
     Inr [Row ''XDP-RX'' (Cpu 0) 100 (Drop_str ''(nan)'') 1,
          Row ''XDP-RX'' (Cpu 1) 50 (Drop_str ''(nan)'') 1,
          Row ''XDP-RX'' Total 150 (Drop_str ''(nan)'') 1]"
proof -
  have h: "timestamp (rx_cnt scenario_prev) = 0" "timestamp (rx_cnt scenario_curr) = 1000000000"
    "map processed (cpu (rx_cnt scenario_prev)) = [100, 0, 0, 0]"
    "map processed (cpu (rx_cnt scenario_curr)) = [200, 50, 0, 0]"
    "processed (total (rx_cnt scenario_prev)) = sum_list (map processed (cpu (rx_cnt scenario_prev)))"
    "processed (total (rx_cnt scenario_curr)) = sum_list (map processed (cpu (rx_cnt scenario_curr)))"
    by (simp_all add: scenario_prev_def scenario_curr_def)
  from scenario_1 [OF h, of oor_zero] h show ?thesis by blast
qed

section \<open>Facts about the poll loop\<close>

text \<open>
  C6. The rotation exchanges the two pointers and nothing else: the heap is the same
  function before and after (no object is copied, created or changed), what was reachable
  through \<^verbatim>\<open>record\<close> is reachable through \<^verbatim>\<open>prev\<close> and conversely, the output written
  so far is untouched, and two rotations restore the state.
\<close>

theorem poll_swap_exchange:
  "swap (a, b) = (b, a) \<and> swap (swap (a, b)) = (a, b) \<and>
   record_p (poll_swap st) = prev_p st \<and> prev_p (poll_swap st) = record_p st \<and>
   heap (poll_swap st) = heap st \<and>
   heap (poll_swap st) (prev_p (poll_swap st)) = heap st (record_p st) \<and>
   heap (poll_swap st) (record_p (poll_swap st)) = heap st (prev_p st) \<and>
   stderr (poll_swap st) = stderr st \<and> stdout (poll_swap st) = stdout st \<and>
   poll_swap (poll_swap st) = st"
  by (simp add: swap_def poll_swap_def Let_def)

section \<open>Facts about a cycle of the loop\<close>

lemma collect_loop_total:
  "(\<And>i. i \<in> set is \<Longrightarrow> i < length vs \<and> i < length (cpu rec)) \<Longrightarrow>
     \<exists>s'. collect_loop vs is (rec, sp, sd) = Inr s'"
proof (induction "is" arbitrary: rec sp sd)
  case Nil
  then show ?case by simp
next
  case (Cons i "is")
  have "i < length vs \<and> i < length (cpu rec)" using Cons.prems by simp
  moreover have "\<exists>s'. collect_loop vs is
      (rec\<lparr>cpu := (cpu rec)[i := (cpu rec ! i)\<lparr>processed := processed (vs ! i)\<rparr>,
                      i := ((cpu rec)[i := (cpu rec ! i)\<lparr>processed := processed (vs ! i)\<rparr>] ! i)
                             \<lparr>dropped := dropped (vs ! i)\<rparr>]\<rparr>,
       sp + processed (vs ! i), sd + dropped (vs ! i)) = Inr s'"
    using Cons.prems by (intro Cons.IH) simp
  ultimately show ?case by (simp add: Let_def)
qed

lemma collect_loop_exact:
  assumes "length vs = n" "length (cpu rec) = n"
  shows "collect_loop vs [0..<n] (rec, 0, 0)
           = Inr (rec\<lparr>cpu := vs\<rparr>, sum_list (map processed vs),
                  sum_list (map dropped vs))"
proof -
  from collect_loop_total [of "[0..<n]" vs rec 0 0] assms
  obtain rec' sp sd where r: "collect_loop vs [0..<n] (rec, 0, 0) = Inr (rec', sp, sd)"
    by (metis atLeastLessThan_iff prod_cases3 set_upt)
  note f = collect_loop_Inr [OF r]
  have "cpu rec' = vs"
    using f assms by (intro nth_equalityI) auto
  with f have "rec' = rec\<lparr>cpu := vs\<rparr>" by simp
  moreover have "map (\<lambda>i. processed (vs ! i)) [0..<n] = map processed vs"
    using assms(1) by (intro nth_equalityI) auto
  moreover have "map (\<lambda>i. dropped (vs ! i)) [0..<n] = map dropped vs"
    using assms(1) by (intro nth_equalityI) auto
  ultimately show ?thesis using r f by simp
qed

lemma gettime_ok: "0 \<le> fst ck \<Longrightarrow> gettime ck = Inr (clock_ns ck)"
  by (simp add: gettime_def clock_ns_def Let_def)

lemma gettime_fail: "fst ck < 0 \<Longrightarrow> gettime ck = Inl (Exit EXIT_FAIL)"
  by (simp add: gettime_def Let_def)

lemma map_collect_percpu_None:
  "bpf_map_lookup_elem env fd key = None \<Longrightarrow>
     map_collect_percpu n env fd key (r, err) = Inr (False, r, err @ [Lookup_failed key])"
  by (simp add: map_collect_percpu_def)

lemma map_collect_percpu_Some:
  assumes "bpf_map_lookup_elem env fd key = Some vs" "0 \<le> fst (clock_gettime env)"
    "length vs = n" "wf_record n r"
  shows "map_collect_percpu n env fd key (r, err)
           = Inr (True, collected vs (clock_ns (clock_gettime env)), err)"
proof -
  have "collect_loop vs [0..<n] (r\<lparr>timestamp := clock_ns (clock_gettime env)\<rparr>, 0, 0)
          = Inr (r\<lparr>timestamp := clock_ns (clock_gettime env), cpu := vs\<rparr>,
                 sum_list (map processed vs), sum_list (map dropped vs))"
    using assms(3,4) collect_loop_exact [of vs n "r\<lparr>timestamp := clock_ns (clock_gettime env)\<rparr>"]
    by (simp add: wf_record_def)
  then show ?thesis
    using assms(1,2) by (simp add: map_collect_percpu_def gettime_ok collected_def)
qed

lemma map_collect_percpu_clock_fail:
  "bpf_map_lookup_elem env fd key = Some vs \<Longrightarrow> fst (clock_gettime env) < 0 \<Longrightarrow>
     map_collect_percpu n env fd key (r, err) = Inl (Exit EXIT_FAIL)"
  by (simp add: map_collect_percpu_def gettime_fail)

lemma collect_loop_Inl: "collect_loop vs is st = Inl a \<Longrightarrow> a = Undefined"
  by (induction vs "is" st rule: collect_loop.induct) (auto simp: Let_def split: if_splits)

lemma map_collect_percpu_Exit:
  assumes "map_collect_percpu n env fd key s = Inl (Exit code)"
  shows "code = EXIT_FAIL \<and> bpf_map_lookup_elem env fd key \<noteq> None \<and> fst (clock_gettime env) < 0"
proof -
  obtain r err where s: "s = (r, err)" by (cases s)
  from assms s obtain vs where v: "bpf_map_lookup_elem env fd key = Some vs"
    by (auto simp: map_collect_percpu_def split: option.splits)
  show ?thesis
  proof (cases "fst (clock_gettime env) < 0")
    case True
    with assms s v show ?thesis by (simp add: map_collect_percpu_clock_fail)
  next
    case False
    then have g: "gettime (clock_gettime env) = Inr (clock_ns (clock_gettime env))"
      by (simp add: gettime_ok)
    from assms s v g show ?thesis
      by (auto simp: map_collect_percpu_def split: sum.splits dest: collect_loop_Inl)
  qed
qed

lemma map_collect_percpu_call:
  assumes "call_ok n map_fd env tbl" "wf_record n r"
  shows "map_collect_percpu n (env (call_index tbl)) (table_fd map_fd tbl) (table_key tbl) (r, err)
           = Inr (lookup_of map_fd env tbl \<noteq> None, table_after map_fd env tbl r,
                  err @ failures map_fd env [tbl])"
proof (cases "lookup_of map_fd env tbl")
  case None
  then show ?thesis
    using map_collect_percpu_None [of "env (call_index tbl)" "table_fd map_fd tbl" "table_key tbl"]
    by (simp add: lookup_of_def table_after_def failures_def)
next
  case (Some vs)
  with assms(1) have "0 \<le> fst (clock_gettime (env (call_index tbl)))" "length vs = n"
    by (simp_all add: call_ok_def)
  with Some assms(2) show ?thesis
    using map_collect_percpu_Some [of "env (call_index tbl)" "table_fd map_fd tbl" "table_key tbl" vs n r err]
    by (simp add: lookup_of_def table_after_def failures_def)
qed

lemma wf_record_table_after:
  "call_ok n map_fd env tbl \<Longrightarrow> wf_record n r \<Longrightarrow> wf_record n (table_after map_fd env tbl r)"
  by (auto simp: call_ok_def table_after_def wf_record_def collected_def split: option.splits)

lemma failures_append:
  "failures map_fd env (xs @ ys) = failures map_fd env xs @ failures map_fd env ys"
  by (simp add: failures_def)

lemma collect_enq_ok:
  assumes "distinct is"
    and "\<And>i. i \<in> set is \<Longrightarrow>
           i < length (enq rec) \<and> wf_record n (enq rec ! i) \<and> call_ok n map_fd env (Enq i)"
  shows "collect_enq n (map_fd 3) env is (rec, err)
           = Inr (rec\<lparr>enq := map (\<lambda>i. if i \<in> set is
                                         then table_after map_fd env (Enq i) (enq rec ! i)
                                         else enq rec ! i) [0..<length (enq rec)]\<rparr>,
                  err @ failures map_fd env (map Enq is))"
  using assms
proof (induction "is" arbitrary: rec err)
  case Nil
  have "map (\<lambda>i. enq rec ! i) [0..<length (enq rec)] = enq rec" by (rule map_nth)
  then show ?case by (simp add: failures_def)
next
  case (Cons i "is")
  let ?r = "table_after map_fd env (Enq i) (enq rec ! i)"
  let ?rec = "rec\<lparr>enq := (enq rec)[i := ?r]\<rparr>"
  have i: "i < length (enq rec)" "wf_record n (enq rec ! i)" "call_ok n map_fd env (Enq i)"
    using Cons.prems(2) [of i] by simp_all
  have ni: "i \<notin> set is" and d: "distinct is" using Cons.prems(1) by simp_all
  have call: "map_collect_percpu n (env (2 + i)) (map_fd 3) (of_nat i) (enq rec ! i, err)
                = Inr (lookup_of map_fd env (Enq i) \<noteq> None, ?r, err @ failures map_fd env [Enq i])"
    using map_collect_percpu_call [OF i(3) i(2), of err] by simp
  have "collect_enq n (map_fd 3) env is (?rec, err @ failures map_fd env [Enq i])
          = Inr (?rec\<lparr>enq := map (\<lambda>j. if j \<in> set is
                                          then table_after map_fd env (Enq j) (enq ?rec ! j)
                                          else enq ?rec ! j) [0..<length (enq ?rec)]\<rparr>,
                 (err @ failures map_fd env [Enq i]) @ failures map_fd env (map Enq is))"
  proof (rule Cons.IH [OF d])
    fix j assume j: "j \<in> set is"
    with ni have "j \<noteq> i" by auto
    with Cons.prems(2) [of j] j
    show "j < length (enq ?rec) \<and> wf_record n (enq ?rec ! j) \<and> call_ok n map_fd env (Enq j)"
      by simp
  qed
  moreover have "map (\<lambda>j. if j \<in> set is then table_after map_fd env (Enq j) (enq ?rec ! j)
                           else enq ?rec ! j) [0..<length (enq ?rec)]
                 = map (\<lambda>j. if j \<in> set (i # is) then table_after map_fd env (Enq j) (enq rec ! j)
                             else enq rec ! j) [0..<length (enq rec)]"
    using ni i(1) by (intro nth_equalityI) (auto simp: nth_list_update)
  moreover have "failures map_fd env [Enq i] @ failures map_fd env (map Enq is)
                   = failures map_fd env (map Enq (i # is))"
    using failures_append [of map_fd env "[Enq i]" "map Enq is"] by simp
  ultimately show ?case using i(1) call by simp
qed

lemma cycle_env_ok_call: "cycle_env_ok n map_fd env \<Longrightarrow> tbl \<in> set tables \<Longrightarrow> call_ok n map_fd env tbl"
  by (simp add: cycle_env_ok_def list_all_iff)

lemma tables_mem: "Rx_cnt \<in> set tables" "Redir_err \<in> set tables" "Kthread \<in> set tables"
    "i < MAX_CPUS \<Longrightarrow> Enq i \<in> set tables"
  by (simp_all add: tables_def)

lemma stats_collect_ok:
  assumes "wf_stats n rec" "cycle_env_ok n map_fd env"
  shows "stats_collect n map_fd env (rec, err)
           = Inr (stats_after map_fd env rec, err @ failures map_fd env tables)"
proof -
  note ok = cycle_env_ok_call [OF assms(2)]
  have wf: "wf_record n (rx_cnt rec)" "wf_record n (redir_err rec)" "wf_record n (kthread rec)"
    "length (enq rec) = MAX_CPUS" "\<And>i. i < MAX_CPUS \<Longrightarrow> wf_record n (enq rec ! i)"
    using assms(1) by (simp_all add: wf_stats_def list_all_length)
  let ?e1 = "err @ failures map_fd env [Rx_cnt]"
  let ?e2 = "?e1 @ failures map_fd env [Redir_err]"
  let ?e3 = "?e2 @ failures map_fd env (map Enq [0..<MAX_CPUS])"
  let ?r2 = "rec\<lparr>rx_cnt := table_after map_fd env Rx_cnt (rx_cnt rec),
                 redir_err := table_after map_fd env Redir_err (redir_err rec)\<rparr>"
  have c1: "map_collect_percpu n (env 0) (map_fd 1) 0 (rx_cnt rec, err)
              = Inr (lookup_of map_fd env Rx_cnt \<noteq> None, table_after map_fd env Rx_cnt (rx_cnt rec), ?e1)"
    using map_collect_percpu_call [OF ok [OF tables_mem(1)] wf(1), of err] by simp
  have c2: "map_collect_percpu n (env 1) (map_fd 2) 1 (redir_err rec, ?e1)
              = Inr (lookup_of map_fd env Redir_err \<noteq> None,
                     table_after map_fd env Redir_err (redir_err rec), ?e2)"
    using map_collect_percpu_call [OF ok [OF tables_mem(2)] wf(2), of ?e1] by simp
  have c3: "collect_enq n (map_fd 3) env [0..<MAX_CPUS] (?r2, ?e2)
              = Inr (?r2\<lparr>enq := map (\<lambda>i. table_after map_fd env (Enq i) (enq rec ! i))
                                    [0..<MAX_CPUS]\<rparr>, ?e3)"
  proof -
    have "collect_enq n (map_fd 3) env [0..<MAX_CPUS] (?r2, ?e2)
            = Inr (?r2\<lparr>enq := map (\<lambda>i. if i \<in> set [0..<MAX_CPUS]
                                           then table_after map_fd env (Enq i) (enq ?r2 ! i)
                                           else enq ?r2 ! i) [0..<length (enq ?r2)]\<rparr>,
                   ?e2 @ failures map_fd env (map Enq [0..<MAX_CPUS]))"
      using wf(4,5) ok [OF tables_mem(4)] by (intro collect_enq_ok) simp_all
    moreover have "map (\<lambda>i. if i \<in> set [0..<MAX_CPUS]
                             then table_after map_fd env (Enq i) (enq ?r2 ! i)
                             else enq ?r2 ! i) [0..<length (enq ?r2)]
                   = map (\<lambda>i. table_after map_fd env (Enq i) (enq rec ! i)) [0..<MAX_CPUS]"
      using wf(4) by (intro nth_equalityI) auto
    ultimately show ?thesis by simp
  qed
  have c4: "map_collect_percpu n (env (2 + MAX_CPUS)) (map_fd 4) 0 (kthread rec, ?e3)
              = Inr (lookup_of map_fd env Kthread \<noteq> None,
                     table_after map_fd env Kthread (kthread rec),
                     ?e3 @ failures map_fd env [Kthread])"
    using map_collect_percpu_call [OF ok [OF tables_mem(3)] wf(3), of ?e3] by simp
  have e: "?e3 @ failures map_fd env [Kthread] = err @ failures map_fd env tables"
  proof -
    have t: "tables = [Rx_cnt] @ [Redir_err] @ map Enq [0..<MAX_CPUS] @ [Kthread]"
      by (simp add: tables_def)
    have "failures map_fd env tables
                 = failures map_fd env [Rx_cnt] @ failures map_fd env [Redir_err]
                   @ failures map_fd env (map Enq [0..<MAX_CPUS]) @ failures map_fd env [Kthread]"
      unfolding t failures_append ..
    then show ?thesis by simp
  qed
  show ?thesis
    using c1 c2 c3 c4 e by (simp add: stats_collect_def stats_after_def Let_def)
qed

lemma get_table_stats_after:
  assumes "tbl \<in> set tables"
  shows "get_table tbl (stats_after map_fd env rec) = table_after map_fd env tbl (get_table tbl rec)"
  using assms by (auto simp: tables_def stats_after_def)

lemma wf_stats_get_table:
  "wf_stats n rec \<Longrightarrow> tbl \<in> set tables \<Longrightarrow> wf_record n (get_table tbl rec)"
  by (auto simp: tables_def wf_stats_def list_all_length)

lemma wf_stats_after:
  assumes "wf_stats n rec" "cycle_env_ok n map_fd env"
  shows "wf_stats n (stats_after map_fd env rec)"
proof -
  have "wf_record n (table_after map_fd env tbl (get_table tbl rec))" if "tbl \<in> set tables" for tbl
    using that assms by (intro wf_record_table_after cycle_env_ok_call wf_stats_get_table)
  from this [OF tables_mem(1)] this [OF tables_mem(2)] this [OF tables_mem(3)]
    this [OF tables_mem(4)]
  show ?thesis
    by (simp add: wf_stats_def stats_after_def list_all_length)
qed

lemma stats_poll_cycle_ok:
  assumes "wf_poll n st" "cycle_env_ok n map_fd env"
  shows "\<exists>old prev_rec.
           heap st (prev_p st) = Some old \<and> heap st (record_p st) = Some prev_rec \<and>
           stats_poll_cycle oor n map_fd env st
             = Inr (st\<lparr>heap := (heap st)(prev_p st \<mapsto> stats_after map_fd env old),
                       record_p := prev_p st, prev_p := record_p st,
                       stderr := stderr st @ failures map_fd env tables,
                       stdout := stdout st
                                   @ spec_render oor n (stats_after map_fd env old) prev_rec\<rparr>)"
proof -
  from assms(1) obtain old prev_rec where
    h: "heap st (prev_p st) = Some old" "heap st (record_p st) = Some prev_rec"
    and wf: "wf_stats n old" "wf_stats n prev_rec" and ne: "record_p st \<noteq> prev_p st"
    by (auto simp: wf_poll_def split: option.splits)
  have c: "stats_collect n map_fd env (old, stderr st)
             = Inr (stats_after map_fd env old, stderr st @ failures map_fd env tables)"
    using wf(1) assms(2) by (rule stats_collect_ok)
  have p: "stats_print oor n (stats_after map_fd env old) prev_rec
             = Inr (spec_render oor n (stats_after map_fd env old) prev_rec)"
    using wf_stats_after [OF wf(1) assms(2)] wf(2) by (rule stats_print_wf)
  have "stats_poll_cycle oor n map_fd env st
             = Inr (st\<lparr>heap := (heap st)(prev_p st \<mapsto> stats_after map_fd env old),
                       record_p := prev_p st, prev_p := record_p st,
                       stderr := stderr st @ failures map_fd env tables,
                       stdout := stdout st
                                   @ spec_render oor n (stats_after map_fd env old) prev_rec\<rparr>)"
    using h ne c p by (simp add: stats_poll_cycle_def poll_swap_def swap_def Let_def)
  with h show ?thesis by blast
qed

lemma stats_poll_cycle_wf:
  assumes "wf_poll n st" "cycle_env_ok n map_fd env"
  shows "\<exists>st'. stats_poll_cycle oor n map_fd env st = Inr st' \<and> wf_poll n st'"
proof -
  from stats_poll_cycle_ok [OF assms, of oor] obtain old prev_rec where
    h: "heap st (prev_p st) = Some old" "heap st (record_p st) = Some prev_rec"
    and c: "stats_poll_cycle oor n map_fd env st
             = Inr (st\<lparr>heap := (heap st)(prev_p st \<mapsto> stats_after map_fd env old),
                       record_p := prev_p st, prev_p := record_p st,
                       stderr := stderr st @ failures map_fd env tables,
                       stdout := stdout st
                                   @ spec_render oor n (stats_after map_fd env old) prev_rec\<rparr>)"
    by blast
  from assms(1) h have wf: "wf_stats n old" "wf_stats n prev_rec" "record_p st \<noteq> prev_p st"
    by (auto simp: wf_poll_def)
  have "wf_poll n (st\<lparr>heap := (heap st)(prev_p st \<mapsto> stats_after map_fd env old),
                       record_p := prev_p st, prev_p := record_p st,
                       stderr := stderr st @ failures map_fd env tables,
                       stdout := stdout st
                                   @ spec_render oor n (stats_after map_fd env old) prev_rec\<rparr>)"
    using wf h wf_stats_after [OF wf(1) assms(2)] by (simp add: wf_poll_def)
  with c show ?thesis by simp
qed

lemma poll_loop_ok:
  assumes "\<And>c'. cycle_env_ok n map_fd (envs c')"
  shows "wf_poll n st \<Longrightarrow> \<exists>st'. poll_loop oor n map_fd envs c m st = Inr st' \<and> wf_poll n st'"
proof (induction m arbitrary: c st)
  case 0
  then show ?case by simp
next
  case (Suc m)
  from stats_poll_cycle_wf [OF Suc.prems assms, of oor c] obtain st1 where
    "stats_poll_cycle oor n map_fd (envs c) st = Inr st1" "wf_poll n st1" by blast
  with Suc.IH [of st1 "Suc c"] show ?case by simp
qed

lemma failures_mem:
  "tbl \<in> set tbls \<Longrightarrow> lookup_of map_fd env tbl = None \<Longrightarrow>
     Lookup_failed (table_key tbl) \<in> set (failures map_fd env tbls)"
  by (auto simp: failures_def)

lemma stats_poll_cycle_step:
  assumes "wf_poll n st" "cycle_env_ok n map_fd env"
  shows "\<exists>st' old prev_rec.
           stats_poll_cycle oor n map_fd env st = Inr st' \<and> wf_poll n st' \<and>
           heap st (prev_p st) = Some old \<and> heap st (record_p st) = Some prev_rec \<and>
           record_p st' = prev_p st \<and> prev_p st' = record_p st \<and>
           heap st' (record_p st') = Some (stats_after map_fd env old) \<and>
           heap st' (prev_p st') = Some prev_rec \<and>
           stderr st' = stderr st @ failures map_fd env tables \<and>
           stdout st' = stdout st @ spec_render oor n (stats_after map_fd env old) prev_rec"
proof -
  from stats_poll_cycle_ok [OF assms, of oor] obtain old prev_rec where
    h: "heap st (prev_p st) = Some old" "heap st (record_p st) = Some prev_rec"
    and c: "stats_poll_cycle oor n map_fd env st
             = Inr (st\<lparr>heap := (heap st)(prev_p st \<mapsto> stats_after map_fd env old),
                       record_p := prev_p st, prev_p := record_p st,
                       stderr := stderr st @ failures map_fd env tables,
                       stdout := stdout st
                                   @ spec_render oor n (stats_after map_fd env old) prev_rec\<rparr>)"
      (is "_ = Inr ?st'")
    by blast
  from assms(1) h have wf: "wf_stats n old" "wf_stats n prev_rec" "record_p st \<noteq> prev_p st"
    by (auto simp: wf_poll_def)
  have "wf_poll n ?st'"
    using wf h wf_stats_after [OF wf(1) assms(2)] by (simp add: wf_poll_def)
  moreover have "record_p ?st' = prev_p st" "prev_p ?st' = record_p st"
    "heap ?st' (record_p ?st') = Some (stats_after map_fd env old)"
    "heap ?st' (prev_p ?st') = Some prev_rec"
    "stderr ?st' = stderr st @ failures map_fd env tables"
    "stdout ?st' = stdout st @ spec_render oor n (stats_after map_fd env old) prev_rec"
    using h wf(3) by simp_all
  ultimately show ?thesis using c h by blast
qed

lemma length_spec_render: "5 \<le> length (spec_render oor n a b)"
  by (simp add: spec_render_def spec_rx_block_def spec_drop_block_def)

lemma poll_loop_grows:
  assumes "\<And>c'. cycle_env_ok n map_fd (envs c')"
  shows "wf_poll n st \<Longrightarrow>
           \<exists>st'. poll_loop oor n map_fd envs c m st = Inr st' \<and> wf_poll n st' \<and>
                 length (stdout st) + 5 * m \<le> length (stdout st')"
proof (induction m arbitrary: c st)
  case 0
  then show ?case by simp
next
  case (Suc m)
  from stats_poll_cycle_step [OF Suc.prems assms, of oor c] obtain st1 old prev_rec where
    s: "stats_poll_cycle oor n map_fd (envs c) st = Inr st1" "wf_poll n st1"
      "stdout st1 = stdout st @ spec_render oor n (stats_after map_fd (envs c) old) prev_rec"
    by blast
  from s(3) have "length (stdout st) + 5 \<le> length (stdout st1)"
    using length_spec_render [of oor n "stats_after map_fd (envs c) old" prev_rec] by simp
  moreover from Suc.IH [OF s(2), of "Suc c"] obtain st' where
    "poll_loop oor n map_fd envs (Suc c) m st1 = Inr st'" "wf_poll n st'"
    "length (stdout st1) + 5 * m \<le> length (stdout st')" by blast
  ultimately show ?case using s(1) by simp
qed


text \<open>
  C4. In a loop whose environment keeps the clock working and returns one value per CPU
  from a lookup that succeeds, let the lookup of the table \<open>tbl\<close> fail in the cycle \<open>c\<close>.
  Then \<^verbatim>\<open>map_collect_percpu\<close> returns false for that table, leaves the record it was
  given as it is and writes one line to \<^verbatim>\<open>stderr\<close>; the cycle completes without abort;
  in the snapshot it collected the record of \<open>tbl\<close> is what it was before (timestamp,
  total and per-CPU values) and the record of every other table is what its own lookup
  and clock reading give; the failure is among the lines logged; the report of all blocks
  is printed for the new snapshot against the previous one. The loop goes on from the
  state that cycle left: its next iteration is the cycle \<open>c + 1\<close> run on that state, which
  collects into the snapshot that was the current one before, with the pointers back
  where they were, and reports it against the snapshot of the cycle \<open>c\<close>; and the loop
  completes any number of further cycles, each adding a report of at least five lines.
\<close>

theorem lookup_failure_confined:
  assumes "wf_poll n st"
    and "\<And>c'. cycle_env_ok n map_fd (envs c')"
    and "tbl \<in> set tables"
    and "lookup_of map_fd (envs c) tbl = None"
  shows "map_collect_percpu n (envs c (call_index tbl)) (table_fd map_fd tbl) (table_key tbl) (r, err)
           = Inr (False, r, err @ [Lookup_failed (table_key tbl)]) \<and>
         (\<exists>st' old new prev_rec.
            stats_poll_cycle oor n map_fd (envs c) st = Inr st' \<and>
            heap st (prev_p st) = Some old \<and> heap st (record_p st) = Some prev_rec \<and>
            heap st' (record_p st') = Some new \<and> heap st' (prev_p st') = Some prev_rec \<and>
            get_table tbl new = get_table tbl old \<and>
            (\<forall>tbl' \<in> set tables.
               get_table tbl' new = table_after map_fd (envs c) tbl' (get_table tbl' old)) \<and>
            stderr st' = stderr st @ failures map_fd (envs c) tables \<and>
            Lookup_failed (table_key tbl) \<in> set (failures map_fd (envs c) tables) \<and>
            stdout st' = stdout st @ spec_render oor n new prev_rec \<and>
            (\<forall>m. poll_loop oor n map_fd envs c (Suc m) st
                   = poll_loop oor n map_fd envs (Suc c) m st') \<and>
            (\<exists>st2 new2.
               stats_poll_cycle oor n map_fd (envs (Suc c)) st' = Inr st2 \<and>
               poll_loop oor n map_fd envs c (Suc (Suc 0)) st = Inr st2 \<and>
               record_p st2 = record_p st \<and> prev_p st2 = prev_p st \<and>
               heap st2 (record_p st2) = Some new2 \<and> heap st2 (prev_p st2) = Some new \<and>
               (\<forall>tbl' \<in> set tables.
                  get_table tbl' new2
                    = table_after map_fd (envs (Suc c)) tbl' (get_table tbl' prev_rec)) \<and>
               stderr st2 = stderr st' @ failures map_fd (envs (Suc c)) tables \<and>
               stdout st2 = stdout st' @ spec_render oor n new2 new)) \<and>
         (\<forall>m. \<exists>st''. poll_loop oor n map_fd envs c (Suc m) st = Inr st'' \<and> wf_poll n st'' \<and>
                 length (stdout st) + 5 * Suc m \<le> length (stdout st''))"
proof (intro conjI allI)
  show "map_collect_percpu n (envs c (call_index tbl)) (table_fd map_fd tbl) (table_key tbl) (r, err)
           = Inr (False, r, err @ [Lookup_failed (table_key tbl)])"
    using assms(4) by (intro map_collect_percpu_None) (simp add: lookup_of_def)
next
  from stats_poll_cycle_step [OF assms(1) assms(2), of oor c] obtain st' old prev_rec where
    c: "stats_poll_cycle oor n map_fd (envs c) st = Inr st'" and wf: "wf_poll n st'"
    and h: "heap st (prev_p st) = Some old" "heap st (record_p st) = Some prev_rec"
    and p: "record_p st' = prev_p st" "prev_p st' = record_p st"
    and h': "heap st' (record_p st') = Some (stats_after map_fd (envs c) old)"
      "heap st' (prev_p st') = Some prev_rec"
    and e: "stderr st' = stderr st @ failures map_fd (envs c) tables"
    and out: "stdout st' = stdout st @ spec_render oor n (stats_after map_fd (envs c) old) prev_rec"
    by blast
  let ?new = "stats_after map_fd (envs c) old"
  from stats_poll_cycle_step [OF wf assms(2), of oor "Suc c"] obtain st2 old2 prev_rec2 where
    c2: "stats_poll_cycle oor n map_fd (envs (Suc c)) st' = Inr st2"
    and h2: "heap st' (prev_p st') = Some old2" "heap st' (record_p st') = Some prev_rec2"
    and p2: "record_p st2 = prev_p st'" "prev_p st2 = record_p st'"
    and h2': "heap st2 (record_p st2) = Some (stats_after map_fd (envs (Suc c)) old2)"
      "heap st2 (prev_p st2) = Some prev_rec2"
    and e2: "stderr st2 = stderr st' @ failures map_fd (envs (Suc c)) tables"
    and out2: "stdout st2
        = stdout st' @ spec_render oor n (stats_after map_fd (envs (Suc c)) old2) prev_rec2"
    by blast
  from h2 h' have o2: "old2 = prev_rec" "prev_rec2 = ?new" by simp_all
  let ?new2 = "stats_after map_fd (envs (Suc c)) prev_rec"
  have g: "get_table tbl ?new = get_table tbl old"
    using assms(3,4) by (simp add: get_table_stats_after table_after_def)
  have a: "\<forall>tbl' \<in> set tables.
      get_table tbl' ?new = table_after map_fd (envs c) tbl' (get_table tbl' old)"
    by (simp add: get_table_stats_after)
  have f: "Lookup_failed (table_key tbl) \<in> set (failures map_fd (envs c) tables)"
    using assms(3,4) by (rule failures_mem)
  have l: "\<forall>m. poll_loop oor n map_fd envs c (Suc m) st
                 = poll_loop oor n map_fd envs (Suc c) m st'"
    using c by simp
  have l2: "poll_loop oor n map_fd envs c (Suc (Suc 0)) st = Inr st2"
    using c c2 by simp
  have a2: "\<forall>tbl' \<in> set tables.
      get_table tbl' ?new2 = table_after map_fd (envs (Suc c)) tbl' (get_table tbl' prev_rec)"
    by (simp add: get_table_stats_after)
  have n2: "\<exists>st2 new2.
               stats_poll_cycle oor n map_fd (envs (Suc c)) st' = Inr st2 \<and>
               poll_loop oor n map_fd envs c (Suc (Suc 0)) st = Inr st2 \<and>
               record_p st2 = record_p st \<and> prev_p st2 = prev_p st \<and>
               heap st2 (record_p st2) = Some new2 \<and> heap st2 (prev_p st2) = Some ?new \<and>
               (\<forall>tbl' \<in> set tables.
                  get_table tbl' new2
                    = table_after map_fd (envs (Suc c)) tbl' (get_table tbl' prev_rec)) \<and>
               stderr st2 = stderr st' @ failures map_fd (envs (Suc c)) tables \<and>
               stdout st2 = stdout st' @ spec_render oor n new2 ?new"
    using c2 l2 p p2 h2' e2 out2 a2 unfolding o2 by (intro exI [of _ st2] exI [of _ ?new2]) simp
  show "\<exists>st' old new prev_rec.
            stats_poll_cycle oor n map_fd (envs c) st = Inr st' \<and>
            heap st (prev_p st) = Some old \<and> heap st (record_p st) = Some prev_rec \<and>
            heap st' (record_p st') = Some new \<and> heap st' (prev_p st') = Some prev_rec \<and>
            get_table tbl new = get_table tbl old \<and>
            (\<forall>tbl' \<in> set tables.
               get_table tbl' new = table_after map_fd (envs c) tbl' (get_table tbl' old)) \<and>
            stderr st' = stderr st @ failures map_fd (envs c) tables \<and>
            Lookup_failed (table_key tbl) \<in> set (failures map_fd (envs c) tables) \<and>
            stdout st' = stdout st @ spec_render oor n new prev_rec \<and>
            (\<forall>m. poll_loop oor n map_fd envs c (Suc m) st
                   = poll_loop oor n map_fd envs (Suc c) m st') \<and>
            (\<exists>st2 new2.
               stats_poll_cycle oor n map_fd (envs (Suc c)) st' = Inr st2 \<and>
               poll_loop oor n map_fd envs c (Suc (Suc 0)) st = Inr st2 \<and>
               record_p st2 = record_p st \<and> prev_p st2 = prev_p st \<and>
               heap st2 (record_p st2) = Some new2 \<and> heap st2 (prev_p st2) = Some new \<and>
               (\<forall>tbl' \<in> set tables.
                  get_table tbl' new2
                    = table_after map_fd (envs (Suc c)) tbl' (get_table tbl' prev_rec)) \<and>
               stderr st2 = stderr st' @ failures map_fd (envs (Suc c)) tables \<and>
               stdout st2 = stdout st' @ spec_render oor n new2 new)"
    by (rule exI [of _ st'], rule exI [of _ old], rule exI [of _ ?new], rule exI [of _ prev_rec],
        intro conjI) (rule c h h' g a e f out l n2)+
next
  fix m
  from poll_loop_grows [where envs = envs and n = n and map_fd = map_fd and oor = oor and c = c
      and m = "Suc m", OF assms(2) assms(1)]
  show "\<exists>st''. poll_loop oor n map_fd envs c (Suc m) st = Inr st'' \<and> wf_poll n st'' \<and>
          length (stdout st) + 5 * Suc m \<le> length (stdout st'')" by blast
qed


lemma wf_ex_stats_early: "wf_stats 1 ex_stats_early"
  by (simp add: wf_stats_def wf_record_def ex_stats_early_def ex_early_def MAX_CPUS_def list_all_iff)

lemma wf_ex_state: "wf_poll 1 ex_state"
  using wf_ex_stats wf_ex_stats_early by (simp add: wf_poll_def ex_state_def)

lemma tables_eq:
  "tables = [Rx_cnt, Redir_err, Enq 0, Enq 1, Enq 2, Enq 3, Enq 4, Enq 5, Enq 6, Enq 7, Enq 8,
             Enq 9, Enq 10, Enq 11, Kthread]"
  by (simp add: tables_def MAX_CPUS_def upt_rec)

lemma ex_env_fail_ok: "cycle_env_ok 1 ex_map_fd ex_env_fail"
  by (simp add: cycle_env_ok_def tables_eq call_ok_def lookup_of_def ex_env_fail_def ex_map_fd_def)

lemma ex_env_fail_lookup: "lookup_of ex_map_fd ex_env_fail (Enq 5) = None"
  by (simp add: lookup_of_def ex_env_fail_def ex_map_fd_def)

lemma ex_env_fail_failures: "failures ex_map_fd ex_env_fail tables = [Lookup_failed 5]"
  by (simp add: failures_def tables_eq lookup_of_def ex_env_fail_def ex_map_fd_def)

lemma ex_env_fail_rx:
  "table_after ex_map_fd ex_env_fail Rx_cnt r
     = \<lparr>timestamp = 5000000000, total = \<lparr>processed = 300, dropped = 9\<rparr>,
        cpu = [\<lparr>processed = 300, dropped = 9\<rparr>]\<rparr>"
  by (simp add: table_after_def lookup_of_def ex_env_fail_def ex_map_fd_def collected_def
      clock_ns_def NANOSEC_PER_SEC_def)

lemma spec_render_ne: "spec_render oor n a b \<noteq> []"
  by (simp add: spec_render_def)

theorem lookup_failure_confined_witness:
  "wf_poll 1 ex_state \<and> cycle_env_ok 1 ex_map_fd ex_env_fail \<and> Enq 5 \<in> set tables \<and>
   lookup_of ex_map_fd ex_env_fail (Enq 5) = None \<and>
   (\<exists>st' new. stats_poll_cycle oor_zero 1 ex_map_fd ex_env_fail ex_state = Inr st' \<and>
      heap st' (record_p st') = Some new \<and> get_table (Enq 5) new = ex_early \<and>
      stderr st' = failures ex_map_fd ex_env_fail tables \<and>
      Lookup_failed 5 \<in> set (stderr st') \<and>
      stdout st' = spec_render oor_zero 1 new ex_stats \<and>
      (\<exists>st2 new2.
         stats_poll_cycle oor_zero 1 ex_map_fd ex_env_fail st' = Inr st2 \<and>
         poll_loop oor_zero 1 ex_map_fd (\<lambda>c. ex_env_fail) 0 2 ex_state = Inr st2 \<and>
         record_p st2 = 10 \<and> prev_p st2 = 20 \<and>
         heap st2 10 = Some new2 \<and> heap st2 20 = Some new \<and>
         get_table (Enq 5) new2 = ex_late \<and>
         get_table Rx_cnt new2
           = \<lparr>timestamp = 5000000000, total = \<lparr>processed = 300, dropped = 9\<rparr>,
              cpu = [\<lparr>processed = 300, dropped = 9\<rparr>]\<rparr> \<and>
         stderr st2 = [Lookup_failed 5, Lookup_failed 5] \<and>
         stdout st2 = spec_render oor_zero 1 new ex_stats @ spec_render oor_zero 1 new2 new \<and>
         stdout st2 \<noteq> [])) \<and>
   (\<exists>st''. poll_loop oor_zero 1 ex_map_fd (\<lambda>c. ex_env_fail) 0 (Suc 2) ex_state = Inr st'' \<and>
      15 \<le> length (stdout st''))"
proof -
  have t: "Enq 5 \<in> set tables" "Rx_cnt \<in> set tables" by (simp_all add: tables_eq)
  note th = lookup_failure_confined [where n = 1 and st = ex_state and map_fd = ex_map_fd
      and envs = "\<lambda>c. ex_env_fail" and tbl = "Enq 5" and c = 0 and oor = oor_zero,
      OF wf_ex_state ex_env_fail_ok t(1) ex_env_fail_lookup]
  from th obtain st' old new prev_rec st2 new2 where
    c: "stats_poll_cycle oor_zero 1 ex_map_fd ex_env_fail ex_state = Inr st'"
    and h: "heap ex_state (prev_p ex_state) = Some old"
      "heap ex_state (record_p ex_state) = Some prev_rec" "heap st' (record_p st') = Some new"
    and g: "get_table (Enq 5) new = get_table (Enq 5) old"
    and e: "stderr st' = stderr ex_state @ failures ex_map_fd ex_env_fail tables"
      "Lookup_failed (table_key (Enq 5)) \<in> set (failures ex_map_fd ex_env_fail tables)"
    and out: "stdout st' = stdout ex_state @ spec_render oor_zero 1 new prev_rec"
    and c2: "stats_poll_cycle oor_zero 1 ex_map_fd ex_env_fail st' = Inr st2"
      "poll_loop oor_zero 1 ex_map_fd (\<lambda>c. ex_env_fail) 0 (Suc (Suc 0)) ex_state = Inr st2"
    and p2: "record_p st2 = record_p ex_state" "prev_p st2 = prev_p ex_state"
    and h2: "heap st2 (record_p st2) = Some new2" "heap st2 (prev_p st2) = Some new"
    and a2: "\<forall>tbl' \<in> set tables.
        get_table tbl' new2 = table_after ex_map_fd ex_env_fail tbl' (get_table tbl' prev_rec)"
    and e2: "stderr st2 = stderr st' @ failures ex_map_fd ex_env_fail tables"
    and out2: "stdout st2 = stdout st' @ spec_render oor_zero 1 new2 new"
    by blast
  from h(1) have o: "old = ex_stats_early" by (simp add: ex_state_def)
  from h(2) have pr: "prev_rec = ex_stats" by (simp add: ex_state_def)
  from g o have g': "get_table (Enq 5) new = ex_early" by (simp add: ex_stats_early_def)
  from e have e': "stderr st' = failures ex_map_fd ex_env_fail tables"
    "Lookup_failed 5 \<in> set (stderr st')"
    by (simp_all add: ex_state_def)
  from out pr have out': "stdout st' = spec_render oor_zero 1 new ex_stats"
    by (simp add: ex_state_def)
  from p2 have p2': "record_p st2 = 10" "prev_p st2 = 20" by (simp_all add: ex_state_def)
  from h2 p2' have h2': "heap st2 10 = Some new2" "heap st2 20 = Some new" by simp_all
  from a2 t(1) have "get_table (Enq 5) new2
      = table_after ex_map_fd ex_env_fail (Enq 5) (get_table (Enq 5) prev_rec)" by (rule bspec)
  then have g2: "get_table (Enq 5) new2 = ex_late"
    using ex_env_fail_lookup pr by (simp add: table_after_def ex_stats_def)
  from a2 t(2) have "get_table Rx_cnt new2
      = table_after ex_map_fd ex_env_fail Rx_cnt (get_table Rx_cnt prev_rec)" by (rule bspec)
  then have r2: "get_table Rx_cnt new2
           = \<lparr>timestamp = 5000000000, total = \<lparr>processed = 300, dropped = 9\<rparr>,
              cpu = [\<lparr>processed = 300, dropped = 9\<rparr>]\<rparr>"
    by (simp only: ex_env_fail_rx)
  from e2 e'(1) have e2': "stderr st2 = [Lookup_failed 5, Lookup_failed 5]"
    by (simp add: ex_env_fail_failures)
  from out2 out' have out2': "stdout st2
      = spec_render oor_zero 1 new ex_stats @ spec_render oor_zero 1 new2 new"
    by simp
  then have ne: "stdout st2 \<noteq> []" by (simp add: spec_render_ne)
  from c2(2) have l2: "poll_loop oor_zero 1 ex_map_fd (\<lambda>c. ex_env_fail) 0 2 ex_state = Inr st2"
    by (simp add: numeral_2_eq_2)
  from th obtain st3 where
    "poll_loop oor_zero 1 ex_map_fd (\<lambda>c. ex_env_fail) 0 (Suc 2) ex_state = Inr st3"
    "length (stdout ex_state) + 5 * Suc 2 \<le> length (stdout st3)" by blast
  then have l3: "\<exists>st''. poll_loop oor_zero 1 ex_map_fd (\<lambda>c. ex_env_fail) 0 (Suc 2) ex_state = Inr st'' \<and>
      15 \<le> length (stdout st'')"
    by (intro exI [of _ st3]) (simp add: ex_state_def)
  have inner: "\<exists>st2 new2.
         stats_poll_cycle oor_zero 1 ex_map_fd ex_env_fail st' = Inr st2 \<and>
         poll_loop oor_zero 1 ex_map_fd (\<lambda>c. ex_env_fail) 0 2 ex_state = Inr st2 \<and>
         record_p st2 = 10 \<and> prev_p st2 = 20 \<and>
         heap st2 10 = Some new2 \<and> heap st2 20 = Some new \<and>
         get_table (Enq 5) new2 = ex_late \<and>
         get_table Rx_cnt new2
           = \<lparr>timestamp = 5000000000, total = \<lparr>processed = 300, dropped = 9\<rparr>,
              cpu = [\<lparr>processed = 300, dropped = 9\<rparr>]\<rparr> \<and>
         stderr st2 = [Lookup_failed 5, Lookup_failed 5] \<and>
         stdout st2 = spec_render oor_zero 1 new ex_stats @ spec_render oor_zero 1 new2 new \<and>
         stdout st2 \<noteq> []"
    by (rule exI [of _ st2], rule exI [of _ new2], intro conjI)
      (rule c2(1) l2 p2' h2' g2 r2 e2' out2' ne)+
  have outer: "\<exists>st' new. stats_poll_cycle oor_zero 1 ex_map_fd ex_env_fail ex_state = Inr st' \<and>
      heap st' (record_p st') = Some new \<and> get_table (Enq 5) new = ex_early \<and>
      stderr st' = failures ex_map_fd ex_env_fail tables \<and>
      Lookup_failed 5 \<in> set (stderr st') \<and>
      stdout st' = spec_render oor_zero 1 new ex_stats \<and>
      (\<exists>st2 new2.
         stats_poll_cycle oor_zero 1 ex_map_fd ex_env_fail st' = Inr st2 \<and>
         poll_loop oor_zero 1 ex_map_fd (\<lambda>c. ex_env_fail) 0 2 ex_state = Inr st2 \<and>
         record_p st2 = 10 \<and> prev_p st2 = 20 \<and>
         heap st2 10 = Some new2 \<and> heap st2 20 = Some new \<and>
         get_table (Enq 5) new2 = ex_late \<and>
         get_table Rx_cnt new2
           = \<lparr>timestamp = 5000000000, total = \<lparr>processed = 300, dropped = 9\<rparr>,
              cpu = [\<lparr>processed = 300, dropped = 9\<rparr>]\<rparr> \<and>
         stderr st2 = [Lookup_failed 5, Lookup_failed 5] \<and>
         stdout st2 = spec_render oor_zero 1 new ex_stats @ spec_render oor_zero 1 new2 new \<and>
         stdout st2 \<noteq> [])"
    by (rule exI [of _ st'], rule exI [of _ new], intro conjI)
      (rule c h(3) g' e' out' inner)+
  from wf_ex_state ex_env_fail_ok t(1) ex_env_fail_lookup outer l3 show ?thesis by blast
qed

lemma for_loop_Inl: "for_loop body is = Inl a \<Longrightarrow> \<exists>i \<in> set is. body i = Inl a"
  by (induction "is") (auto simp: bind_abort_def split: sum.splits)

lemma stats_print_Inl: "stats_print oor n sr sp = Inl a \<Longrightarrow> a = Undefined"
  by (auto simp: stats_print_def print_rx_cnt_def print_kthread_def print_redir_err_def
      print_drop_block_def print_enq_def rx_cnt_row_def enq_row_def drop_row_def
      bind_abort_def Let_def
      split: sum.splits if_splits dest!: for_loop_Inl)

lemma collect_enq_Exit:
  "collect_enq n fd env is s = Inl (Exit code) \<Longrightarrow>
     \<exists>i \<in> set is. code = EXIT_FAIL \<and> bpf_map_lookup_elem (env (2 + i)) fd (of_nat i) \<noteq> None \<and>
        fst (clock_gettime (env (2 + i))) < 0"
proof (induction n fd env "is" s rule: collect_enq.induct)
  case (1 nr_cpus fd env s)
  then show ?case by simp
next
  case (2 nr_cpus fd env i "is" rec err)
  from "2.prems" have b: "i < length (enq rec)" by (auto split: if_splits)
  show ?case
  proof (cases "map_collect_percpu nr_cpus (env (2 + i)) fd (of_nat i) (enq rec ! i, err)")
    case (Inl a)
    with "2.prems" b have "a = Exit code" by simp
    with Inl map_collect_percpu_Exit show ?thesis by fastforce
  next
    case (Inr x)
    obtain ok r err' where x: "x = (ok, r, err')" by (cases x)
    with "2.prems" b Inr
    have "collect_enq nr_cpus fd env is (rec\<lparr>enq := (enq rec)[i := r]\<rparr>, err') = Inl (Exit code)"
      by simp
    from "2.IH" [OF b Inr x [symmetric] refl this] show ?thesis by auto
  qed
qed

lemma stats_collect_Exit:
  assumes "stats_collect n map_fd env s = Inl (Exit code)"
  shows "code = EXIT_FAIL \<and>
         (\<exists>tbl \<in> set tables. lookup_of map_fd env tbl \<noteq> None \<and>
            fst (clock_gettime (env (call_index tbl))) < 0)"
proof -
  have "(\<exists>x. map_collect_percpu n (env 0) (map_fd 1) 0 x = Inl (Exit code)) \<or>
        (\<exists>x. map_collect_percpu n (env 1) (map_fd 2) 1 x = Inl (Exit code)) \<or>
        (\<exists>x. collect_enq n (map_fd 3) env [0..<MAX_CPUS] x = Inl (Exit code)) \<or>
        (\<exists>x. map_collect_percpu n (env (2 + MAX_CPUS)) (map_fd 4) 0 x = Inl (Exit code))"
    using assms
    by (simp add: stats_collect_def bind_abort_def Let_def split: sum.splits prod.splits) blast+
  then consider
      (rx) "\<exists>x. map_collect_percpu n (env 0) (map_fd 1) 0 x = Inl (Exit code)"
    | (re) "\<exists>x. map_collect_percpu n (env 1) (map_fd 2) 1 x = Inl (Exit code)"
    | (en) "\<exists>x. collect_enq n (map_fd 3) env [0..<MAX_CPUS] x = Inl (Exit code)"
    | (kt) "\<exists>x. map_collect_percpu n (env (2 + MAX_CPUS)) (map_fd 4) 0 x = Inl (Exit code)"
    by blast
  then show ?thesis
  proof cases
    case rx
    then obtain x where "map_collect_percpu n (env 0) (map_fd 1) 0 x = Inl (Exit code)" ..
    from map_collect_percpu_Exit [OF this] tables_mem(1) show ?thesis
      by (intro conjI bexI [of _ Rx_cnt]) (simp_all add: lookup_of_def)
  next
    case re
    then obtain x where "map_collect_percpu n (env 1) (map_fd 2) 1 x = Inl (Exit code)" ..
    from map_collect_percpu_Exit [OF this] tables_mem(2) show ?thesis
      by (intro conjI bexI [of _ Redir_err]) (simp_all add: lookup_of_def)
  next
    case en
    then obtain x where "collect_enq n (map_fd 3) env [0..<MAX_CPUS] x = Inl (Exit code)" ..
    from collect_enq_Exit [OF this] obtain i where
      i: "i < MAX_CPUS" "code = EXIT_FAIL"
         "bpf_map_lookup_elem (env (2 + i)) (map_fd 3) (of_nat i) \<noteq> None"
         "fst (clock_gettime (env (2 + i))) < 0"
      by auto
    from i tables_mem(4) [OF i(1)] show ?thesis
      by (intro conjI bexI [of _ "Enq i"]) (simp_all add: lookup_of_def)
  next
    case kt
    then obtain x where
      "map_collect_percpu n (env (2 + MAX_CPUS)) (map_fd 4) 0 x = Inl (Exit code)" ..
    from map_collect_percpu_Exit [OF this] tables_mem(3) show ?thesis
      by (intro conjI bexI [of _ Kthread]) (simp_all add: lookup_of_def)
  qed
qed

lemma stats_poll_cycle_Exit:
  assumes "stats_poll_cycle oor n map_fd env st = Inl (Exit code)"
  shows "code = EXIT_FAIL \<and>
         (\<exists>tbl \<in> set tables. lookup_of map_fd env tbl \<noteq> None \<and>
            fst (clock_gettime (env (call_index tbl))) < 0)"
proof -
  from assms have "\<exists>s. stats_collect n map_fd env s = Inl (Exit code)"
    by (auto simp: stats_poll_cycle_def bind_abort_def Let_def
        split: option.splits sum.splits prod.splits dest: stats_print_Inl)
  then show ?thesis using stats_collect_Exit by blast
qed

lemma ex_cycle_noclock:
  "stats_poll_cycle oor_zero 1 ex_map_fd ex_env_noclock ex_state = Inl (Exit EXIT_FAIL)"
  by (simp add: stats_poll_cycle_def poll_swap_def swap_def ex_state_def stats_collect_def
      map_collect_percpu_def ex_env_noclock_def gettime_def Let_def)

text \<open>
  C5, as amended. A lookup that fails never ends the process: \<^verbatim>\<open>map_collect_percpu\<close>
  returns false. A clock that fails after a lookup that succeeded ends it: \<^verbatim>\<open>gettime\<close>
  calls \<^verbatim>\<open>exit(EXIT_FAIL)\<close>. Inside one cycle of the loop this is the only exit: a cycle
  that exits does so with the status \<^verbatim>\<open>EXIT_FAIL\<close>, at a table whose lookup succeeded and
  whose clock reading failed; and a cycle in which the clock works completes, whatever
  lookups fail.
\<close>

theorem cycle_fatal_paths:
  "(bpf_map_lookup_elem e fd key = None \<longrightarrow>
      map_collect_percpu n e fd key (r, err) = Inr (False, r, err @ [Lookup_failed key])) \<and>
   (bpf_map_lookup_elem e' fd' key' \<noteq> None \<longrightarrow> fst (clock_gettime e') < 0 \<longrightarrow>
      map_collect_percpu n e' fd' key' (r', err') = Inl (Exit EXIT_FAIL)) \<and>
   (stats_poll_cycle oor n map_fd env st = Inl (Exit code) \<longrightarrow>
      code = EXIT_FAIL \<and>
      (\<exists>tbl \<in> set tables. lookup_of map_fd env tbl \<noteq> None \<and>
         fst (clock_gettime (env (call_index tbl))) < 0)) \<and>
   (wf_poll n st2 \<longrightarrow> cycle_env_ok n map_fd env2 \<longrightarrow>
      (\<exists>st'. stats_poll_cycle oor n map_fd env2 st2 = Inr st' \<and> wf_poll n st'))"
  using map_collect_percpu_None [of e fd key n r err]
    map_collect_percpu_clock_fail [of e' fd' key' _ n r' err']
    stats_poll_cycle_Exit [of oor n map_fd env st code]
    stats_poll_cycle_wf [of n st2 map_fd env2 oor]
  by auto

lemma ex_env_noclock_lookup: "bpf_map_lookup_elem (ex_env_noclock 0) 1 0 \<noteq> None"
  "fst (clock_gettime (ex_env_noclock 0)) < 0"
  by (simp_all add: ex_env_noclock_def)

lemma ex_env_fail_lookup': "bpf_map_lookup_elem (ex_env_fail 7) 3 5 = None"
  by (simp add: ex_env_fail_def)

theorem cycle_fatal_paths_witness:
  "bpf_map_lookup_elem (ex_env_fail 7) 3 5 = None \<and>
   map_collect_percpu 1 (ex_env_fail 7) 3 5 (ex_early, []) = Inr (False, ex_early, [Lookup_failed 5]) \<and>
   bpf_map_lookup_elem (ex_env_noclock 0) 1 0 \<noteq> None \<and> fst (clock_gettime (ex_env_noclock 0)) < 0 \<and>
   map_collect_percpu 1 (ex_env_noclock 0) 1 0 (ex_early, []) = Inl (Exit EXIT_FAIL) \<and>
   stats_poll_cycle oor_zero 1 ex_map_fd ex_env_noclock ex_state = Inl (Exit EXIT_FAIL) \<and>
   (\<exists>tbl \<in> set tables. lookup_of ex_map_fd ex_env_noclock tbl \<noteq> None \<and>
      fst (clock_gettime (ex_env_noclock (call_index tbl))) < 0) \<and>
   wf_poll 1 ex_state \<and> cycle_env_ok 1 ex_map_fd ex_env_fail \<and>
   (\<exists>st'. stats_poll_cycle oor_zero 1 ex_map_fd ex_env_fail ex_state = Inr st' \<and> wf_poll 1 st')"
  using cycle_fatal_paths [of "ex_env_fail 7" 3 5 1 ex_early "[]" "ex_env_noclock 0" 1 0
      ex_early "[]" oor_zero ex_map_fd ex_env_noclock ex_state EXIT_FAIL ex_state ex_env_fail]
    ex_env_fail_lookup' ex_env_noclock_lookup ex_cycle_noclock wf_ex_state ex_env_fail_ok
  by simp

text \<open>
  So a failure other than that of an allocation ends the process: with a clock that
  returns \<open>-1\<close> the cycle exits with the status \<^verbatim>\<open>EXIT_FAIL\<close>.
\<close>

theorem clock_failure_is_fatal_counterexample:
  "stats_poll_cycle oor_zero 1 ex_map_fd ex_env_noclock ex_state = Inl (Exit EXIT_FAIL)"
  by (rule ex_cycle_noclock)

section \<open>Facts about allocation\<close>

text \<open>
  \<^verbatim>\<open>alloc_record_per_cpu\<close> and \<^verbatim>\<open>alloc_stats_record\<close> call \<^verbatim>\<open>memset\<close> on the result of
  \<^verbatim>\<open>malloc\<close> before they test it. When \<^verbatim>\<open>malloc\<close> returns a null pointer the behaviour is
  undefined at the \<^verbatim>\<open>memset\<close>, and the \<^verbatim>\<open>exit(EXIT_FAIL_MEM)\<close> that follows the test is
  never reached.
\<close>

lemma alloc_record_per_cpu_null: "alloc_record_per_cpu n None = Inl Undefined"
  by (simp add: alloc_record_per_cpu_def memset_def)

lemma alloc_record_per_cpu_Some:
  "alloc_record_per_cpu n (Some a) = Inr (replicate n \<lparr>processed = 0, dropped = 0\<rparr>)"
  by (simp add: alloc_record_per_cpu_def memset_def)

lemma alloc_record_per_cpu_no_exit: "alloc_record_per_cpu n array \<noteq> Inl (Exit code)"
  by (cases array) (simp_all add: alloc_record_per_cpu_null alloc_record_per_cpu_Some)

lemma alloc_enq_no_exit: "alloc_enq n malloc is rec \<noteq> Inl (Exit code)"
proof (induction n malloc "is" rec rule: alloc_enq.induct)
  case (1 nr_cpus malloc rec)
  then show ?case by simp
next
  case (2 nr_cpus malloc i "is" rec)
  then show ?case
    by (cases "malloc (4 + i)")
      (simp_all add: alloc_record_per_cpu_null alloc_record_per_cpu_Some)
qed

lemma alloc_stats_record_no_exit: "alloc_stats_record n malloc \<noteq> Inl (Exit code)"
proof (cases "malloc 0")
  case None
  then show ?thesis by (simp add: alloc_stats_record_def memset_def)
next
  case (Some a)
  then show ?thesis
    using alloc_enq_no_exit [of n malloc _ _ code]
    by (cases "malloc 1"; cases "malloc 2"; cases "malloc 3")
      (auto simp: alloc_stats_record_def memset_def alloc_record_per_cpu_null
        alloc_record_per_cpu_Some Let_def bind_abort_def split: sum.splits)
qed

lemma alloc_stats_record_null: "malloc 0 = None \<Longrightarrow> alloc_stats_record n malloc = Inl Undefined"
  by (simp add: alloc_stats_record_def memset_def)

text \<open>
  When every \<^verbatim>\<open>malloc\<close> succeeds, the snapshot has the shape \<open>wf_stats\<close>.
\<close>

lemma alloc_enq_ok:
  assumes "\<And>i. i \<in> set is \<Longrightarrow> i < length (enq rec) \<and> malloc (4 + i) \<noteq> None"
  shows "alloc_enq n malloc is rec
           = Inr (rec\<lparr>enq := map (\<lambda>i. if i \<in> set is
                                         then (enq rec ! i)\<lparr>cpu := replicate n \<lparr>processed = 0, dropped = 0\<rparr>\<rparr>
                                         else enq rec ! i) [0..<length (enq rec)]\<rparr>)"
  using assms
proof (induction "is" arbitrary: rec)
  case Nil
  have "map (\<lambda>i. enq rec ! i) [0..<length (enq rec)] = enq rec" by (rule map_nth)
  then show ?case by simp
next
  case (Cons i "is")
  let ?z = "replicate n \<lparr>processed = 0, dropped = 0\<rparr>"
  let ?rec = "rec\<lparr>enq := (enq rec)[i := (enq rec ! i)\<lparr>cpu := ?z\<rparr>]\<rparr>"
  from Cons.prems [of i] obtain a where i: "i < length (enq rec)" "malloc (4 + i) = Some a"
    by auto
  have "alloc_enq n malloc is ?rec
          = Inr (?rec\<lparr>enq := map (\<lambda>j. if j \<in> set is then (enq ?rec ! j)\<lparr>cpu := ?z\<rparr>
                                         else enq ?rec ! j) [0..<length (enq ?rec)]\<rparr>)"
    using Cons.prems by (intro Cons.IH) simp
  moreover have "map (\<lambda>j. if j \<in> set is then (enq ?rec ! j)\<lparr>cpu := ?z\<rparr> else enq ?rec ! j)
                   [0..<length (enq ?rec)]
                 = map (\<lambda>j. if j \<in> set (i # is) then (enq rec ! j)\<lparr>cpu := ?z\<rparr> else enq rec ! j)
                     [0..<length (enq rec)]"
    using i(1) by (intro nth_equalityI) (auto simp: nth_list_update)
  ultimately show ?case using i by (simp add: alloc_record_per_cpu_Some)
qed

lemma alloc_stats_record_ok:
  assumes "\<And>k. k < 4 + MAX_CPUS \<Longrightarrow> malloc k \<noteq> None"
  shows "\<exists>a rec. alloc_stats_record n malloc = Inr (a, rec) \<and> malloc 0 = Some a \<and> wf_stats n rec"
proof -
  let ?z = "replicate n \<lparr>processed = 0, dropped = 0\<rparr>"
  let ?zero = "\<lparr>timestamp = 0, total = \<lparr>processed = 0, dropped = 0\<rparr>, cpu = []\<rparr>"
  let ?rec = "\<lparr>rx_cnt = ?zero\<lparr>cpu := ?z\<rparr>, redir_err = ?zero\<lparr>cpu := ?z\<rparr>,
               kthread = ?zero\<lparr>cpu := ?z\<rparr>, enq = replicate MAX_CPUS ?zero\<rparr>"
  from assms [of 0] assms [of 1] assms [of 2] assms [of 3]
  obtain a a1 a2 a3 where
    m: "malloc 0 = Some a" "malloc 1 = Some a1" "malloc 2 = Some a2" "malloc 3 = Some a3"
    by (auto simp: MAX_CPUS_def)
  have e: "alloc_enq n malloc [0..<MAX_CPUS] ?rec
          = Inr (?rec\<lparr>enq := map (\<lambda>i. if i \<in> set [0..<MAX_CPUS]
                                         then (enq ?rec ! i)\<lparr>cpu := ?z\<rparr>
                                         else enq ?rec ! i) [0..<length (enq ?rec)]\<rparr>)"
    using assms by (intro alloc_enq_ok) simp
  have "alloc_stats_record n malloc
          = Inr (a, ?rec\<lparr>enq := map (\<lambda>i. if i \<in> set [0..<MAX_CPUS]
                                         then (enq ?rec ! i)\<lparr>cpu := ?z\<rparr>
                                         else enq ?rec ! i) [0..<length (enq ?rec)]\<rparr>)"
    using m e by (simp add: alloc_stats_record_def memset_def alloc_record_per_cpu_Some Let_def)
  moreover have "wf_stats n (?rec\<lparr>enq := map (\<lambda>i. if i \<in> set [0..<MAX_CPUS]
                                         then (enq ?rec ! i)\<lparr>cpu := ?z\<rparr>
                                         else enq ?rec ! i) [0..<length (enq ?rec)]\<rparr>)"
    by (simp add: wf_stats_def wf_record_def list_all_length)
  ultimately show ?thesis using m(1) by blast
qed

text \<open>
  The whole of \<^verbatim>\<open>stats_poll\<close>: when the allocations succeed and give two distinct objects,
  and the environment keeps the clock working and its lookups return one value per CPU or
  fail, the loop reaches the end of every iteration.
\<close>

lemma stats_poll_ok:
  assumes "\<And>k. k < 4 + MAX_CPUS \<Longrightarrow> malloc1 k \<noteq> None"
    and "\<And>k. k < 4 + MAX_CPUS \<Longrightarrow> malloc2 k \<noteq> None"
    and "malloc1 0 \<noteq> malloc2 0"
    and "cycle_env_ok n map_fd env0" and "\<And>c. cycle_env_ok n map_fd (envs c)"
  shows "\<exists>st. stats_poll oor n map_fd malloc1 malloc2 env0 envs m = Inr st \<and> wf_poll n st"
proof -
  from alloc_stats_record_ok [of malloc1 n, OF assms(1)] obtain a1 r1 where
    a1: "alloc_stats_record n malloc1 = Inr (a1, r1)" "malloc1 0 = Some a1" "wf_stats n r1"
    by blast
  from alloc_stats_record_ok [of malloc2 n, OF assms(2)] obtain a2 r2 where
    a2: "alloc_stats_record n malloc2 = Inr (a2, r2)" "malloc2 0 = Some a2" "wf_stats n r2"
    by blast
  from a1(2) a2(2) assms(3) have ne: "a1 \<noteq> a2" by auto
  let ?st = "\<lparr>heap = [a1 \<mapsto> r1, a2 \<mapsto> r2](a1 \<mapsto> stats_after map_fd env0 r1),
             record_p = a1, prev_p = a2, stderr = [] @ failures map_fd env0 tables, stdout = []\<rparr>"
  have c: "stats_collect n map_fd env0 (r1, []) = Inr (stats_after map_fd env0 r1, [] @ failures map_fd env0 tables)"
    using a1(3) assms(4) by (rule stats_collect_ok)
  have wf: "wf_poll n ?st"
    using ne a2(3) wf_stats_after [OF a1(3) assms(4)] by (simp add: wf_poll_def)
  from poll_loop_ok [where envs = envs and n = n and map_fd = map_fd and oor = oor and c = 0
      and m = m, OF assms(5) wf]
  obtain st where "poll_loop oor n map_fd envs 0 m ?st = Inr st" "wf_poll n st" by blast
  moreover have "stats_poll oor n map_fd malloc1 malloc2 env0 envs m
                   = poll_loop oor n map_fd envs 0 m ?st"
    using a1(1) a2(1) ne c by (simp add: stats_poll_def Let_def)
  ultimately show ?thesis by simp
qed


end
